theory Spec2Isabelle
  imports Main "HOL-Library.Multiset"
begin

section \<open>The core engine of tetroidz (the hook \<open>useGameLogic\<close>)\<close>

text \<open>
  The engine is a React hook. Its state lives in \<open>useState\<close> cells and one
  \<open>useRef\<close> (the piece bag). Every operation is a closure created by a render:
  the values \<open>board\<close>, \<open>currentPiece\<close>, \<open>pos\<close>, \<open>nextPiece\<close>, \<open>gameOver\<close>
  it reads are those of that render, and a \<open>setX\<close> call only takes effect at the
  next render. An operation is therefore a function from the state of the last
  render to the state of the next one. In particular \<open>collision\<close> always reads
  the board of the last render, also when it is called after \<open>setBoard\<close>.

  Numbers are modelled as \<open>int\<close>, a cell \<open>string | null\<close> as \<open>string option\<close>,
  arrays as lists. Where JavaScript would throw (a property read on
  \<open>undefined\<close>) the model returns \<open>Inl TypeError\<close>; where it would build an array
  holding \<open>undefined\<close>, which the declared types do not contain, the model
  returns \<open>Inl UndefinedValue\<close>.
\<close>

subsection \<open>Data\<close>

datatype error = TypeError | UndefinedValue

definition bindE :: "error + 'a \<Rightarrow> ('a \<Rightarrow> error + 'b) \<Rightarrow> error + 'b" where
  "bindE r f = (case r of Inl e \<Rightarrow> Inl e | Inr v \<Rightarrow> f v)"

definition js_index :: "'a list \<Rightarrow> nat \<Rightarrow> 'a option" where
  \<comment> \<open>\<open>xs[i]\<close> for \<open>i \<ge> 0\<close>; \<open>None\<close> is JavaScript's \<open>undefined\<close>.\<close>
  "js_index xs i = (if i < length xs then Some (xs ! i) else None)"

definition js_rem :: "int \<Rightarrow> int \<Rightarrow> int" where
  \<comment> \<open>JavaScript's \<open>%\<close> on integers: the sign of the dividend.\<close>
  "js_rem a b = sgn a * (\<bar>a\<bar> mod \<bar>b\<bar>)"

definition BOARD_WIDTH :: int where "BOARD_WIDTH = 10"
definition BOARD_HEIGHT :: int where "BOARD_HEIGHT = 20"

datatype PieceName = I_piece | O_piece | T_piece | L_piece | J_piece | S_piece | Z_piece

type_synonym shape = "int list list"
type_synonym cell = "string option"
type_synonym board = "cell list list"

fun PIECES :: "PieceName \<Rightarrow> shape" where
  "PIECES I_piece = [[1, 1, 1, 1]]"
| "PIECES O_piece = [[1, 1], [1, 1]]"
| "PIECES T_piece = [[1, 1, 1], [0, 1, 0]]"
| "PIECES L_piece = [[1, 1, 1], [1, 0, 0]]"
| "PIECES J_piece = [[1, 1, 1], [0, 0, 1]]"
| "PIECES S_piece = [[0, 1, 1], [1, 1, 0]]"
| "PIECES Z_piece = [[1, 1, 0], [0, 1, 1]]"

fun COLORS :: "PieceName \<Rightarrow> string" where
  "COLORS I_piece = ''#00FFFF''"
| "COLORS O_piece = ''#FFFF00''"
| "COLORS T_piece = ''#AA00FF''"
| "COLORS L_piece = ''#FF8C00''"
| "COLORS J_piece = ''#0000FF''"
| "COLORS S_piece = ''#00FF00''"
| "COLORS Z_piece = ''#FF0000''"

record Piece =
  shape :: shape
  color :: string
  name :: PieceName

record Position =
  xpos :: int
  ypos :: int
  rotation :: int

subsection \<open>Wall kicks\<close>

definition commonKicks :: "(int \<times> int) list" where
  "commonKicks = [(0, 0), (-1, 0), (-1, 1), (0, -2), (-1, -2)]"

definition commonKicksAnti :: "(int \<times> int) list" where
  "commonKicksAnti = [(0, 0), (1, 0), (1, 1), (0, -2), (1, -2)]"

definition I_kicks :: "int \<times> int \<Rightarrow> (int \<times> int) list option" where
  "I_kicks key =
     (if key = (0, 1) then Some [(0, 0), (-2, 0), (1, 0), (-2, -1), (1, 2)]
      else if key = (1, 0) then Some [(0, 0), (2, 0), (-1, 0), (2, 1), (-1, -2)]
      else if key = (1, 2) then Some [(0, 0), (-1, 0), (2, 0), (-1, 2), (2, -1)]
      else if key = (2, 1) then Some [(0, 0), (1, 0), (-2, 0), (1, -2), (-2, 1)]
      else if key = (2, 3) then Some [(0, 0), (2, 0), (-1, 0), (2, 1), (-1, -2)]
      else if key = (3, 2) then Some [(0, 0), (-2, 0), (1, 0), (-2, -1), (1, 2)]
      else if key = (3, 0) then Some [(0, 0), (1, 0), (-2, 0), (1, -2), (-2, 1)]
      else if key = (0, 3) then Some [(0, 0), (-1, 0), (2, 0), (-1, 2), (2, -1)]
      else None)"

definition common_kicks_table :: "int \<times> int \<Rightarrow> (int \<times> int) list option" where
  "common_kicks_table key =
     (if key \<in> {(0, 1), (1, 2), (2, 3), (3, 0)} then Some commonKicks
      else if key \<in> {(1, 0), (2, 1), (3, 2), (0, 3)} then Some commonKicksAnti
      else None)"

text \<open>
  \<open>WALL_KICKS[name][`${from}>${to}`]\<close>: the key string is determined by the pair
  \<open>(from, to)\<close>, which is the key of the model. \<open>None\<close> is a missing entry.
\<close>

fun WALL_KICKS :: "PieceName \<Rightarrow> int \<times> int \<Rightarrow> (int \<times> int) list option" where
  "WALL_KICKS I_piece key = I_kicks key"
| "WALL_KICKS O_piece key = None"
| "WALL_KICKS n key = common_kicks_table key"

subsection \<open>rotateMatrix\<close>

text \<open>
  \<open>matrix[0].length\<close> throws on the empty array. \<open>row[i]\<close> is \<open>undefined\<close> when a
  row is shorter than \<open>matrix[0]\<close>; every column index below \<open>numCols\<close> is read
  in every row, so the result holds \<open>undefined\<close> exactly when some row is
  shorter than the first.
\<close>

definition rotateMatrix :: "shape \<Rightarrow> int \<Rightarrow> error + shape" where
  "rotateMatrix matrix dir =
     (case matrix of
        [] \<Rightarrow> Inl TypeError
      | row0 # _ \<Rightarrow>
          (let numCols = length row0 in
           if \<exists>row \<in> set matrix. length row < numCols then Inl UndefinedValue
           else if dir = 1 then
             Inr (map (\<lambda>i. rev (map (\<lambda>row. row ! i) matrix)) [0..<numCols])
           else
             Inr (rev (map (\<lambda>i. map (\<lambda>row. row ! (numCols - 1 - i)) matrix)
                        [0..<numCols]))))"

subsection \<open>The piece supply\<close>

text \<open>
  \<open>Math.floor(Math.random() * (i + 1))\<close> is some index in \<open>0..i\<close>. The random
  source is a parameter \<open>rnd\<close>: the \<open>k\<close>-th call of \<open>Math.random\<close> yields the
  index \<open>rnd k mod (i + 1)\<close>, so every choice the program can make is the
  choice of some \<open>rnd\<close>. The supply is the bag together with the number of
  calls made so far.
\<close>

type_synonym piece_supply = "PieceName list \<times> nat"

fun shuffle :: "(nat \<Rightarrow> nat) \<Rightarrow> nat \<Rightarrow> nat \<Rightarrow> PieceName list \<Rightarrow> PieceName list \<times> nat" where
  "shuffle rnd calls 0 pieces = (pieces, calls)"
| "shuffle rnd calls (Suc k) pieces =
     (let i = Suc k;
          j = rnd calls mod (i + 1)
      in shuffle rnd (calls + 1) k (pieces[i := pieces ! j, j := pieces ! i]))"

definition PIECE_KEYS :: "PieceName list" where
  "PIECE_KEYS = [I_piece, O_piece, T_piece, L_piece, J_piece, S_piece, Z_piece]"

definition refill :: "(nat \<Rightarrow> nat) \<Rightarrow> piece_supply \<Rightarrow> piece_supply" where
  "refill rnd st =
     (case st of (bag, calls) \<Rightarrow>
        if length bag = 0 then shuffle rnd calls (length PIECE_KEYS - 1) PIECE_KEYS
        else (bag, calls))"

text \<open>After the refill the bag holds a name, so \<open>pop()\<close> returns one: the last.\<close>

definition getNextPiece :: "(nat \<Rightarrow> nat) \<Rightarrow> piece_supply \<Rightarrow> Piece \<times> piece_supply" where
  "getNextPiece rnd st =
     (case refill rnd st of (bag, calls) \<Rightarrow>
        (let n = last bag
         in (\<lparr>shape = PIECES n, color = COLORS n, name = n\<rparr>, (butlast bag, calls))))"

text \<open>The names of \<open>n\<close> successive draws, and the supply they leave.\<close>

fun draws :: "(nat \<Rightarrow> nat) \<Rightarrow> nat \<Rightarrow> piece_supply \<Rightarrow> PieceName list \<times> piece_supply" where
  "draws rnd 0 st = ([], st)"
| "draws rnd (Suc k) st =
     (case getNextPiece rnd st of
        (p, st') \<Rightarrow> (case draws rnd k st' of (ns, st'') \<Rightarrow> (name p # ns, st'')))"

subsection \<open>Board helpers\<close>

definition createEmptyBoard :: board where
  "createEmptyBoard = replicate (nat BOARD_HEIGHT) (replicate (nat BOARD_WIDTH) None)"

definition wf_board :: "board \<Rightarrow> bool" where
  "wf_board b = (int (length b) = BOARD_HEIGHT \<and> list_all (\<lambda>row. int (length row) = BOARD_WIDTH) b)"

text \<open>\<open>newBoard[ny][nx] = color\<close>; writing one past the end of a row appends,
  further out it leaves holes.\<close>

definition setCell :: "board \<Rightarrow> nat \<Rightarrow> nat \<Rightarrow> string \<Rightarrow> error + board" where
  "setCell b ny nx c =
     (case js_index b ny of
        None \<Rightarrow> Inl TypeError
      | Some row \<Rightarrow>
          if nx < length row then Inr (b[ny := row[nx := Some c]])
          else if nx = length row then Inr (b[ny := row @ [Some c]])
          else Inl UndefinedValue)"

fun mergeRow :: "int list \<Rightarrow> nat \<Rightarrow> int \<Rightarrow> int \<Rightarrow> string \<Rightarrow> board \<Rightarrow> error + board" where
  "mergeRow [] dx px ny c newBoard = Inr newBoard"
| "mergeRow (cell # cells) dx px ny c newBoard =
     (if cell \<noteq> 0 then
        (let nx = px + int dx in
         if ny \<ge> 0 \<and> ny < BOARD_HEIGHT \<and> nx \<ge> 0 \<and> nx < BOARD_WIDTH then
           bindE (setCell newBoard (nat ny) (nat nx) c) (mergeRow cells (dx + 1) px ny c)
         else mergeRow cells (dx + 1) px ny c newBoard)
      else mergeRow cells (dx + 1) px ny c newBoard)"

fun mergeRows :: "shape \<Rightarrow> nat \<Rightarrow> int \<Rightarrow> int \<Rightarrow> string \<Rightarrow> board \<Rightarrow> error + board" where
  "mergeRows [] dy px py c newBoard = Inr newBoard"
| "mergeRows (row # rows) dy px py c newBoard =
     bindE (mergeRow row 0 px (py + int dy) c newBoard) (mergeRows rows (dy + 1) px py c)"

definition mergePiece :: "shape \<Rightarrow> int \<Rightarrow> int \<Rightarrow> string \<Rightarrow> board \<Rightarrow> error + board" where
  "mergePiece sh px py c baseBoard = mergeRows sh 0 px py c baseBoard"

text \<open>
  \<open>mergePiece\<close> once more, with the row arrays in a store. A board is an array
  of references to row arrays; \<open>[...row]\<close> allocates a new row array with the
  cells of \<open>row\<close>, and \<open>newBoard[ny][nx] = color\<close> writes into the row array that
  \<open>newBoard[ny]\<close> refers to. The store is the next free address and the
  contents of the addresses; a board is the list of the addresses of its rows.
\<close>

type_synonym row_store = "nat \<times> (nat \<Rightarrow> cell list)"

fun copyRows :: "nat list \<Rightarrow> row_store \<Rightarrow> nat list \<times> row_store" where
  "copyRows [] st = ([], st)"
| "copyRows (a # as) (n, m) =
     (case copyRows as (Suc n, m(n := m a)) of (rs, st') \<Rightarrow> (n # rs, st'))"

definition setCell_st :: "nat list \<Rightarrow> nat \<Rightarrow> nat \<Rightarrow> string \<Rightarrow> row_store \<Rightarrow> error + row_store" where
  "setCell_st refs ny nx c st =
     (case st of (n, m) \<Rightarrow>
        (case js_index refs ny of
           None \<Rightarrow> Inl TypeError
         | Some a \<Rightarrow>
             if nx < length (m a) then Inr (n, m(a := (m a)[nx := Some c]))
             else if nx = length (m a) then Inr (n, m(a := m a @ [Some c]))
             else Inl UndefinedValue))"

fun mergeRow_st :: "int list \<Rightarrow> nat \<Rightarrow> int \<Rightarrow> int \<Rightarrow> string \<Rightarrow> nat list \<Rightarrow> row_store \<Rightarrow> error + row_store" where
  "mergeRow_st [] dx px ny c newBoard st = Inr st"
| "mergeRow_st (cell # cells) dx px ny c newBoard st =
     (if cell \<noteq> 0 then
        (let nx = px + int dx in
         if ny \<ge> 0 \<and> ny < BOARD_HEIGHT \<and> nx \<ge> 0 \<and> nx < BOARD_WIDTH then
           bindE (setCell_st newBoard (nat ny) (nat nx) c st) (mergeRow_st cells (dx + 1) px ny c newBoard)
         else mergeRow_st cells (dx + 1) px ny c newBoard st)
      else mergeRow_st cells (dx + 1) px ny c newBoard st)"

fun mergeRows_st :: "shape \<Rightarrow> nat \<Rightarrow> int \<Rightarrow> int \<Rightarrow> string \<Rightarrow> nat list \<Rightarrow> row_store \<Rightarrow> error + row_store" where
  "mergeRows_st [] dy px py c newBoard st = Inr st"
| "mergeRows_st (row # rows) dy px py c newBoard st =
     bindE (mergeRow_st row 0 px (py + int dy) c newBoard st) (mergeRows_st rows (dy + 1) px py c newBoard)"

definition mergePiece_st :: "shape \<Rightarrow> int \<Rightarrow> int \<Rightarrow> string \<Rightarrow> nat list \<Rightarrow> row_store \<Rightarrow> error + nat list \<times> row_store" where
  "mergePiece_st sh px py c baseBoard st =
     (case copyRows baseBoard st of
        (newBoard, st1) \<Rightarrow>
          bindE (mergeRows_st sh 0 px py c newBoard st1) (\<lambda>st2. Inr (newBoard, st2)))"

text \<open>The callback of the inner \<open>some\<close> of \<open>collision\<close>, for a set cell.\<close>

definition cellHits :: "board \<Rightarrow> int \<Rightarrow> int \<Rightarrow> error + bool" where
  "cellHits b nx ny =
     (if nx < 0 \<or> nx \<ge> BOARD_WIDTH \<or> ny \<ge> BOARD_HEIGHT then Inr True
      else if ny \<ge> 0 then
        (case js_index b (nat ny) of
           None \<Rightarrow> Inl TypeError
         | Some row \<Rightarrow> Inr (js_index row (nat nx) \<noteq> Some None))
      else Inr False)"

fun rowSome :: "board \<Rightarrow> int list \<Rightarrow> nat \<Rightarrow> int \<Rightarrow> int \<Rightarrow> error + bool" where
  "rowSome b [] dx px ny = Inr False"
| "rowSome b (cell # cells) dx px ny =
     (if cell = 0 then rowSome b cells (dx + 1) px ny
      else bindE (cellHits b (px + int dx) ny)
             (\<lambda>hit. if hit then Inr True else rowSome b cells (dx + 1) px ny))"

fun shapeSome :: "board \<Rightarrow> shape \<Rightarrow> nat \<Rightarrow> int \<Rightarrow> int \<Rightarrow> error + bool" where
  "shapeSome b [] dy px py = Inr False"
| "shapeSome b (row # rows) dy px py =
     bindE (rowSome b row 0 px (py + int dy))
       (\<lambda>hit. if hit then Inr True else shapeSome b rows (dy + 1) px py)"

definition collision :: "board \<Rightarrow> shape \<Rightarrow> int \<Rightarrow> int \<Rightarrow> error + bool" where
  "collision b sh px py = shapeSome b sh 0 px py"

subsection \<open>clearLines\<close>

text \<open>The \<open>forEach\<close> of \<open>clearLines\<close>: \<open>idx\<close> is the index of the row at hand,
  \<open>newBoard\<close> and \<open>clearedRows\<close> grow by \<open>push\<close>.\<close>

fun clearLines_scan :: "board \<Rightarrow> nat \<Rightarrow> board \<Rightarrow> nat list \<Rightarrow> board \<times> nat list" where
  "clearLines_scan [] idx newBoard clearedRows = (newBoard, clearedRows)"
| "clearLines_scan (row # rest) idx newBoard clearedRows =
     (if list_all (\<lambda>cell. cell \<noteq> None) row
      then clearLines_scan rest (idx + 1) newBoard (clearedRows @ [idx])
      else clearLines_scan rest (idx + 1) (newBoard @ [row]) clearedRows)"

subsection \<open>The engine state\<close>

text \<open>
  The \<open>useState\<close> cells and the bag. Two fields belong to the model:
  \<open>randomCalls\<close> counts the calls of \<open>Math.random\<close>, and \<open>timeouts\<close> holds, in
  the order they were set, the boards that the pending 150 ms callbacks of
  \<open>clearLines\<close> will pass to \<open>setBoard\<close>.
\<close>

record game =
  board :: board
  currentPiece :: Piece
  pos :: Position
  nextPiece :: Piece
  holdPiece :: "Piece option"
  holdUsed :: bool
  gameOver :: bool
  score :: int
  linesCleared :: int
  timeElapsed :: int
  dropSpeed :: int
  flashLines :: "nat list"
  pieceBag :: "PieceName list"
  randomCalls :: nat
  timeouts :: "board list"

text \<open>The state of the first render: the initial values of the \<open>useState\<close> cells,
  with the bag empty before the first draw.\<close>

definition initialGame :: "(nat \<Rightarrow> nat) \<Rightarrow> game" where
  "initialGame rnd =
     (case getNextPiece rnd ([], 0) of
        (p1, st1) \<Rightarrow>
          (case getNextPiece rnd st1 of
             (p2, (bag, calls)) \<Rightarrow>
               \<lparr>board = createEmptyBoard,
                currentPiece = p1,
                pos = \<lparr>xpos = 3, ypos = 0, rotation = 0\<rparr>,
                nextPiece = p2,
                holdPiece = None,
                holdUsed = False,
                gameOver = False,
                score = 0,
                linesCleared = 0,
                timeElapsed = 0,
                dropSpeed = 1000,
                flashLines = [],
                pieceBag = bag,
                randomCalls = calls,
                timeouts = []\<rparr>))"

definition clearLines :: "board \<Rightarrow> game \<Rightarrow> game" where
  "clearLines b s =
     (case clearLines_scan b 0 [] [] of (newBoard, clearedRows) \<Rightarrow>
        if length clearedRows > 0 then
          (let prev = linesCleared s;
               newLinesCleared = prev + int (length clearedRows)
           in s\<lparr>flashLines := clearedRows,
                score := score s + int (length clearedRows) * 100,
                linesCleared := newLinesCleared,
                dropSpeed := (if newLinesCleared div 10 > prev div 10
                              then max 100 (dropSpeed s - 100) else dropSpeed s),
                timeouts := timeouts s @
                  [replicate (length clearedRows) (replicate (nat BOARD_WIDTH) None) @ newBoard]\<rparr>)
        else s\<lparr>board := b\<rparr>)"

text \<open>The callback of the \<open>setTimeout\<close> in \<open>clearLines\<close>, 150 ms later.\<close>

definition flashTimeout :: "game \<Rightarrow> game" where
  "flashTimeout s =
     (case timeouts s of
        [] \<Rightarrow> s
      | b # rest \<Rightarrow> s\<lparr>board := b, flashLines := [], timeouts := rest\<rparr>)"

subsection \<open>Operations\<close>

definition tick :: "(nat \<Rightarrow> nat) \<Rightarrow> game \<Rightarrow> error + game" where
  "tick rnd s =
     bindE (collision (board s) (shape (currentPiece s)) (xpos (pos s)) (ypos (pos s) + 1))
       (\<lambda>hit.
          if hit then
            bindE (mergePiece (shape (currentPiece s)) (xpos (pos s)) (ypos (pos s))
                     (color (currentPiece s)) (board s))
              (\<lambda>newBoard.
                 let s1 = clearLines newBoard s;
                     s2 = s1\<lparr>holdUsed := False\<rparr>
                 in bindE (collision (board s) (shape (nextPiece s)) 3 0)
                      (\<lambda>over.
                         if over then Inr (s2\<lparr>gameOver := True\<rparr>)
                         else
                           (case getNextPiece rnd (pieceBag s, randomCalls s) of
                              (p, (bag, calls)) \<Rightarrow>
                                Inr (s2\<lparr>currentPiece := nextPiece s,
                                        pos := \<lparr>xpos = 3, ypos = 0, rotation = 0\<rparr>,
                                        nextPiece := p,
                                        pieceBag := bag, randomCalls := calls\<rparr>))))
          else Inr (s\<lparr>pos := (pos s)\<lparr>ypos := ypos (pos s) + 1\<rparr>\<rparr>))"

text \<open>
  The game loop of the effect: while \<open>gameOver\<close> holds, the effect returns
  before it schedules \<open>gameLoop\<close>, and its cleanup has cancelled the timeout
  of the previous render; otherwise the timer calls \<open>tick\<close>.
\<close>

definition gameLoop :: "(nat \<Rightarrow> nat) \<Rightarrow> game \<Rightarrow> error + game" where
  "gameLoop rnd s = (if gameOver s then Inr s else tick rnd s)"

definition move :: "int \<Rightarrow> game \<Rightarrow> error + game" where
  "move dx s =
     (if gameOver s then Inr s
      else bindE (collision (board s) (shape (currentPiece s)) (xpos (pos s) + dx) (ypos (pos s)))
             (\<lambda>hit. if hit then Inr s
                     else Inr (s\<lparr>pos := (pos s)\<lparr>xpos := xpos (pos s) + dx\<rparr>\<rparr>)))"

text \<open>The \<open>for\<close> loop of \<open>rotate\<close> over the kick candidates.\<close>

fun tryKicks :: "shape \<Rightarrow> int \<Rightarrow> (int \<times> int) list \<Rightarrow> game \<Rightarrow> error + game" where
  "tryKicks rotatedShape to [] s = Inr s"
| "tryKicks rotatedShape to ((kx, ky) # kicks) s =
     (let nx = xpos (pos s) + kx;
          ny = ypos (pos s) - ky
      in bindE (collision (board s) rotatedShape nx ny)
           (\<lambda>hit.
              if \<not> hit then
                Inr (s\<lparr>currentPiece := (currentPiece s)\<lparr>shape := rotatedShape\<rparr>,
                        pos := \<lparr>xpos = nx, ypos = ny, rotation = to\<rparr>\<rparr>)
              else tryKicks rotatedShape to kicks s))"

definition rotate_piece :: "int \<Rightarrow> game \<Rightarrow> error + game" where
  "rotate_piece dir s =
     (if gameOver s then Inr s
      else if name (currentPiece s) = O_piece then Inr s
      else
        bindE (rotateMatrix (shape (currentPiece s)) dir)
          (\<lambda>rotatedShape.
             let from = rotation (pos s);
                 to = js_rem (from + dir + 4) 4;
                 kicks = (case WALL_KICKS (name (currentPiece s)) (from, to) of
                            Some ks \<Rightarrow> ks | None \<Rightarrow> [(0, 0)])
             in tryKicks rotatedShape to kicks s))"

definition hold :: "(nat \<Rightarrow> nat) \<Rightarrow> game \<Rightarrow> game" where
  "hold rnd s =
     (if gameOver s \<or> holdUsed s then s
      else
        (let s1 =
           (case holdPiece s of
              None \<Rightarrow>
                (case getNextPiece rnd (pieceBag s, randomCalls s) of
                   (p, (bag, calls)) \<Rightarrow>
                     s\<lparr>holdPiece := Some ((currentPiece s)\<lparr>shape := PIECES (name (currentPiece s))\<rparr>),
                       currentPiece := nextPiece s,
                       nextPiece := p,
                       pieceBag := bag, randomCalls := calls\<rparr>)
            | Some held \<Rightarrow>
                (let temp = (currentPiece s)\<lparr>shape := PIECES (name (currentPiece s))\<rparr>
                 in s\<lparr>currentPiece := held, holdPiece := Some temp\<rparr>))
         in s1\<lparr>pos := \<lparr>xpos = 3, ypos = 0, rotation = 0\<rparr>, holdUsed := True\<rparr>))"

definition restart :: "(nat \<Rightarrow> nat) \<Rightarrow> game \<Rightarrow> game" where
  "restart rnd s =
     (case getNextPiece rnd ([], randomCalls s) of
        (p1, st1) \<Rightarrow>
          (case getNextPiece rnd st1 of
             (p2, (bag, calls)) \<Rightarrow>
               s\<lparr>board := createEmptyBoard,
                 currentPiece := p1,
                 nextPiece := p2,
                 holdPiece := None,
                 pos := \<lparr>xpos = 3, ypos = 0, rotation = 0\<rparr>,
                 score := 0,
                 linesCleared := 0,
                 timeElapsed := 0,
                 dropSpeed := 1000,
                 gameOver := False,
                 holdUsed := False,
                 flashLines := [],
                 pieceBag := bag, randomCalls := calls\<rparr>))"

text \<open>
  The \<open>while\<close> loop of \<open>ghostY\<close>. It need not end: \<open>None\<close> is the run that never
  returns, \<open>Some (Inl e)\<close> the run that throws, \<open>Some (Inr y)\<close> the run that
  returns \<open>y\<close>.
\<close>

partial_function (option) ghostY_loop :: "board \<Rightarrow> shape \<Rightarrow> int \<Rightarrow> int \<Rightarrow> (error + int) option" where
  "ghostY_loop b sh px y =
     (case collision b sh px (y + 1) of
        Inl e \<Rightarrow> Some (Inl e)
      | Inr hit \<Rightarrow> if hit then Some (Inr y) else ghostY_loop b sh px (y + 1))"

declare ghostY_loop.simps [code]

definition ghostY :: "game \<Rightarrow> (error + int) option" where
  "ghostY s = ghostY_loop (board s) (shape (currentPiece s)) (xpos (pos s)) (ypos (pos s))"

definition hardDrop :: "(nat \<Rightarrow> nat) \<Rightarrow> game \<Rightarrow> (error + game) option" where
  "hardDrop rnd s =
     (if gameOver s then Some (Inr s)
      else
        (case ghostY s of
           None \<Rightarrow> None
         | Some (Inl e) \<Rightarrow> Some (Inl e)
         | Some (Inr dropY) \<Rightarrow>
             Some (bindE (mergePiece (shape (currentPiece s)) (xpos (pos s)) dropY
                            (color (currentPiece s)) (board s))
                     (\<lambda>newBoard.
                        let s1 = clearLines newBoard s;
                            s2 = s1\<lparr>holdUsed := False\<rparr>
                        in bindE (collision (board s) (shape (nextPiece s)) 3 0)
                             (\<lambda>over.
                                if over then Inr (s2\<lparr>gameOver := True\<rparr>)
                                else
                                  (case getNextPiece rnd (pieceBag s, randomCalls s) of
                                     (p, (bag, calls)) \<Rightarrow>
                                       Inr (s2\<lparr>currentPiece := nextPiece s,
                                               nextPiece := p,
                                               pieceBag := bag, randomCalls := calls,
                                               pos := \<lparr>xpos = 3, ypos = 0, rotation = 0\<rparr>\<rparr>)))))))"

text \<open>\<open>tick()\<close> called \<open>k\<close> times in a row, each call on the state the call before
  has left; an uncaught exception ends the run.\<close>

fun ticks :: "(nat \<Rightarrow> nat) \<Rightarrow> nat \<Rightarrow> game \<Rightarrow> error + game" where
  "ticks rnd 0 s = Inr s"
| "ticks rnd (Suc k) s = bindE (tick rnd s) (ticks rnd k)"

text \<open>\<open>hardDrop()\<close> called \<open>n\<close> times in a row, as long as the calls return.\<close>

fun hardDrops :: "(nat \<Rightarrow> nat) \<Rightarrow> nat \<Rightarrow> game \<Rightarrow> (error + game) option" where
  "hardDrops rnd 0 s = Some (Inr s)"
| "hardDrops rnd (Suc n) s =
     (case hardDrop rnd s of
        Some (Inr s') \<Rightarrow> hardDrops rnd n s'
      | r \<Rightarrow> r)"

subsection \<open>Predicates of the statements\<close>

text \<open>What \<open>collision\<close> tests at one absolute cell of a 20 by 10 board.\<close>

definition blocked :: "board \<Rightarrow> int \<Rightarrow> int \<Rightarrow> bool" where
  "blocked b nx ny =
     (nx < 0 \<or> nx \<ge> BOARD_WIDTH \<or> ny \<ge> BOARD_HEIGHT \<or> (ny \<ge> 0 \<and> b ! nat ny ! nat nx \<noteq> None))"

definition collides :: "board \<Rightarrow> shape \<Rightarrow> int \<Rightarrow> int \<Rightarrow> bool" where
  "collides b sh px py =
     list_ex (\<lambda>dy. list_ex (\<lambda>dx. sh ! dy ! dx \<noteq> 0 \<and> blocked b (px + int dx) (py + int dy))
                       [0..<length (sh ! dy)])
             [0..<length sh]"

text \<open>A matrix of \<open>r\<close> rows and \<open>c\<close> columns.\<close>

definition rect :: "nat \<Rightarrow> nat \<Rightarrow> 'a list list \<Rightarrow> bool" where
  "rect r c m = (length m = r \<and> list_all (\<lambda>row. length row = c) m)"

text \<open>Column \<open>j\<close> receives a set cell of the row \<open>cells\<close>, whose first cell has
  index \<open>dx\<close>, when the piece is anchored at column \<open>px\<close>.\<close>

definition painted_row :: "int list \<Rightarrow> nat \<Rightarrow> int \<Rightarrow> nat \<Rightarrow> bool" where
  "painted_row cells dx px j = (\<exists>k<length cells. cells ! k \<noteq> 0 \<and> px + int (dx + k) = int j)"

text \<open>The store result refines the value result on the rows \<open>refs\<close>, and touches no other row.\<close>

definition refines :: "nat list \<Rightarrow> row_store \<Rightarrow> error + row_store \<Rightarrow> error + board \<Rightarrow> bool" where
  "refines refs st rs rb =
     (case rb of
        Inl e \<Rightarrow> rs = Inl e
      | Inr b' \<Rightarrow> (\<exists>m'. rs = Inr (fst st, m') \<and> map m' refs = b' \<and>
                      (\<forall>a. a \<notin> set refs \<longrightarrow> m' a = snd st a)))"

text \<open>The next tick locks the piece: its probe one row down collides.\<close>

definition locks :: "game \<Rightarrow> bool" where
  "locks s = (collision (board s) (shape (currentPiece s)) (xpos (pos s)) (ypos (pos s) + 1) = Inr True)"

section \<open>Properties\<close>

subsection \<open>rotateMatrix\<close>

lemma rotateMatrix_cw:
  assumes "rect r c m" "0 < r"
  shows "\<exists>m'. rotateMatrix m 1 = Inr m' \<and> rect c r m' \<and>
          (\<forall>i<c. \<forall>j<r. m' ! i ! j = m ! (r - 1 - j) ! i)"
proof -
  from assms obtain row0 rest where m: "m = row0 # rest"
    by (cases m) (auto simp: rect_def)
  have len0: "length row0 = c"
    using assms m by (auto simp: rect_def)
  have nolt: "\<not> (\<exists>row \<in> set m. length row < c)"
    using assms by (auto simp: rect_def list_all_iff)
  have eq: "rotateMatrix m 1 = Inr (map (\<lambda>i. rev (map (\<lambda>row. row ! i) m)) [0..<c])"
    using nolt len0 unfolding rotateMatrix_def m by (simp add: Let_def)
  show ?thesis
    unfolding eq using assms by (auto simp: rect_def rev_nth list_all_iff)
qed

text \<open>Four clockwise quarter turns give back every matrix that has a row and a
  column.\<close>

lemma rotateMatrix_cw_order4:
  assumes "rect r c m" "0 < r" "0 < c"
  shows "bindE (rotateMatrix m 1) (\<lambda>m1. bindE (rotateMatrix m1 1)
           (\<lambda>m2. bindE (rotateMatrix m2 1) (\<lambda>m3. rotateMatrix m3 1))) = Inr m"
proof -
  from rotateMatrix_cw[OF assms(1,2)] obtain m1 where m1: "rotateMatrix m 1 = Inr m1"
      "rect c r m1" "\<forall>i<c. \<forall>j<r. m1 ! i ! j = m ! (r - 1 - j) ! i"
    by blast
  from rotateMatrix_cw[OF m1(2) assms(3)] obtain m2 where m2: "rotateMatrix m1 1 = Inr m2"
      "rect r c m2" "\<forall>i<r. \<forall>j<c. m2 ! i ! j = m1 ! (c - 1 - j) ! i"
    by blast
  from rotateMatrix_cw[OF m2(2) assms(2)] obtain m3 where m3: "rotateMatrix m2 1 = Inr m3"
      "rect c r m3" "\<forall>i<c. \<forall>j<r. m3 ! i ! j = m2 ! (r - 1 - j) ! i"
    by blast
  from rotateMatrix_cw[OF m3(2) assms(3)] obtain m4 where m4: "rotateMatrix m3 1 = Inr m4"
      "rect r c m4" "\<forall>i<r. \<forall>j<c. m4 ! i ! j = m3 ! (c - 1 - j) ! i"
    by blast
  have "m4 = m"
  proof (rule nth_equalityI)
    show "length m4 = length m"
      using m4(2) assms(1) by (simp add: rect_def)
  next
    fix i assume "i < length m4"
    then have i: "i < r"
      using m4(2) by (simp add: rect_def)
    show "m4 ! i = m ! i"
    proof (rule nth_equalityI)
      show "length (m4 ! i) = length (m ! i)"
        using m4(2) assms(1) i by (simp add: rect_def list_all_length)
    next
      fix j assume "j < length (m4 ! i)"
      then have j: "j < c"
        using m4(2) i by (simp add: rect_def list_all_length)
      have "m4 ! i ! j = m3 ! (c - 1 - j) ! i"
        using m4(3) i j by simp
      also have "\<dots> = m2 ! (r - 1 - i) ! (c - 1 - j)"
        using m3(3) i j by simp
      also have "\<dots> = m1 ! (c - 1 - (c - 1 - j)) ! (r - 1 - i)"
        using m2(3) i j by simp
      also have "\<dots> = m1 ! j ! (r - 1 - i)"
        using j by simp
      also have "\<dots> = m ! (r - 1 - (r - 1 - i)) ! j"
        using m1(3) i j by simp
      also have "\<dots> = m ! i ! j"
        using i by simp
      finally show "m4 ! i ! j = m ! i ! j" .
    qed
  qed
  then show ?thesis
    using m1(1) m2(1) m3(1) m4(1) by (simp add: bindE_def)
qed

text \<open>With \<open>dir = -1\<close> the columns are taken from the last to the first and the
  list of them is then reversed, so row \<open>i\<close> of the result is column \<open>i\<close> of
  the argument: the result is the transpose, not a quarter turn.\<close>

lemma rotateMatrix_anti_transpose:
  assumes "rect r c m" "0 < r"
  shows "rotateMatrix m (- 1) = Inr (map (\<lambda>i. map (\<lambda>row. row ! i) m) [0..<c])"
proof -
  from assms obtain row0 rest where m: "m = row0 # rest"
    by (cases m) (auto simp: rect_def)
  have len0: "length row0 = c"
    using assms m by (auto simp: rect_def)
  have nolt: "\<not> (\<exists>row \<in> set m. length row < c)"
    using assms by (auto simp: rect_def list_all_iff)
  have "rev (map (\<lambda>i. map (\<lambda>row. row ! (c - 1 - i)) m) [0..<c])
          = map (\<lambda>i. map (\<lambda>row. row ! i) m) [0..<c]"
    by (rule nth_equalityI) (auto simp: rev_nth)
  then show ?thesis
    using nolt len0 unfolding rotateMatrix_def m by (simp add: Let_def)
qed

text \<open>
  C4. Rotation as a group action of order 4: four clockwise turns are the
  identity (\<open>rotateMatrix_cw_order4\<close>), but a clockwise turn followed by the
  turn with \<open>dir = -1\<close> is not. On the L piece the two turns give the shape
  with its rows in reverse order.
\<close>

theorem rotateMatrix_cw_anti_L:
  "bindE (rotateMatrix (PIECES L_piece) 1) (\<lambda>m. rotateMatrix m (- 1)) = Inr [[1, 0, 0], [1, 1, 1]]
   \<and> PIECES L_piece = [[1, 1, 1], [1, 0, 0]]"
  by (simp add: rotateMatrix_def bindE_def upt_rec)

subsection \<open>collision\<close>

lemma collides_iff:
  "collides b sh px py \<longleftrightarrow>
     (\<exists>dy<length sh. \<exists>dx<length (sh ! dy).
        sh ! dy ! dx \<noteq> 0 \<and> blocked b (px + int dx) (py + int dy))"
  unfolding collides_def list_ex_iff by (simp add: Bex_def)

lemma wf_board_row:
  "wf_board b \<Longrightarrow> 0 \<le> ny \<Longrightarrow> ny < BOARD_HEIGHT \<Longrightarrow> js_index b (nat ny) = Some (b ! nat ny)"
  by (auto simp: wf_board_def js_index_def)

lemma wf_board_cell:
  "wf_board b \<Longrightarrow> 0 \<le> ny \<Longrightarrow> ny < BOARD_HEIGHT \<Longrightarrow> 0 \<le> nx \<Longrightarrow> nx < BOARD_WIDTH \<Longrightarrow>
     js_index (b ! nat ny) (nat nx) = Some (b ! nat ny ! nat nx)"
  by (auto simp: wf_board_def js_index_def list_all_length BOARD_HEIGHT_def BOARD_WIDTH_def)

lemma cellHits_wf: "wf_board b \<Longrightarrow> cellHits b nx ny = Inr (blocked b nx ny)"
  by (auto simp: cellHits_def blocked_def wf_board_row wf_board_cell)

lemma rowSome_wf:
  "wf_board b \<Longrightarrow>
   rowSome b cells dx px ny =
     Inr (\<exists>k<length cells. cells ! k \<noteq> 0 \<and> blocked b (px + int (dx + k)) ny)"
proof (induction cells arbitrary: dx)
  case Nil
  then show ?case by simp
next
  case (Cons cell cells)
  show ?case
    using Cons.prems Cons.IH[OF Cons.prems, of "dx + 1"]
    by (simp add: cellHits_wf bindE_def Ex_less_Suc2 add_ac)
qed

lemma shapeSome_wf:
  "wf_board b \<Longrightarrow>
   shapeSome b sh dy px py =
     Inr (\<exists>k<length sh. \<exists>dx<length (sh ! k). sh ! k ! dx \<noteq> 0 \<and>
            blocked b (px + int dx) (py + int (dy + k)))"
proof (induction sh arbitrary: dy)
  case Nil
  then show ?case by simp
next
  case (Cons row rows)
  show ?case
    using Cons.prems Cons.IH[OF Cons.prems, of "dy + 1"]
    by (auto simp add: rowSome_wf bindE_def Ex_less_Suc2 add_ac)
qed

lemma collision_wf: "wf_board b \<Longrightarrow> collision b sh px py = Inr (collides b sh px py)"
  by (simp add: collision_def shapeSome_wf collides_iff)

lemma wf_createEmptyBoard: "wf_board createEmptyBoard"
  by (simp add: wf_board_def createEmptyBoard_def BOARD_HEIGHT_def BOARD_WIDTH_def list_all_iff)

text \<open>
  C5. On a 20 by 10 board the collision test is true exactly when some set
  cell of the shape lands left or right of the board or below it, or lands on
  a row \<open>ny \<ge> 0\<close> in an occupied cell. Hence a shape whose set cells all lie
  above the board, within its columns, does not collide whatever the board
  holds, and a shape without a set cell collides nowhere.
\<close>

theorem collision_iff:
  assumes "wf_board b"
  shows "collision b sh px py =
           Inr (\<exists>dy<length sh. \<exists>dx<length (sh ! dy). sh ! dy ! dx \<noteq> 0 \<and>
                  (px + int dx < 0 \<or> px + int dx \<ge> 10 \<or> py + int dy \<ge> 20 \<or>
                   (py + int dy \<ge> 0 \<and> b ! nat (py + int dy) ! nat (px + int dx) \<noteq> None)))
         \<and> ((\<forall>dy<length sh. \<forall>dx<length (sh ! dy). sh ! dy ! dx \<noteq> 0 \<longrightarrow>
                py + int dy < 0 \<and> 0 \<le> px + int dx \<and> px + int dx < 10)
              \<longrightarrow> collision b sh px py = Inr False)
         \<and> ((\<forall>dy<length sh. \<forall>dx<length (sh ! dy). sh ! dy ! dx = 0)
              \<longrightarrow> collision b sh px py = Inr False)"
proof -
  have eq: "collision b sh px py =
           Inr (\<exists>dy<length sh. \<exists>dx<length (sh ! dy). sh ! dy ! dx \<noteq> 0 \<and>
                  (px + int dx < 0 \<or> px + int dx \<ge> 10 \<or> py + int dy \<ge> 20 \<or>
                   (py + int dy \<ge> 0 \<and> b ! nat (py + int dy) ! nat (px + int dx) \<noteq> None)))"
    using assms
    by (simp add: collision_wf collides_iff blocked_def BOARD_WIDTH_def BOARD_HEIGHT_def)
  show ?thesis
    unfolding eq by (intro conjI impI) (simp, fastforce, simp)
qed

theorem collision_iff_witness:
  "wf_board createEmptyBoard
   \<and> collision createEmptyBoard (PIECES T_piece) 3 19 = Inr True
   \<and> collision createEmptyBoard (PIECES T_piece) 3 (- 2) = Inr False
   \<and> collision createEmptyBoard [[0, 0], [0, 0]] 30 30 = Inr False"
proof -
  have h: "wf_board createEmptyBoard"
    by (rule wf_createEmptyBoard)
  have c1: "collides createEmptyBoard (PIECES T_piece) 3 19"
    by code_simp
  have "collision createEmptyBoard (PIECES T_piece) 3 19 = Inr True"
    using collision_iff[OF h, of "PIECES T_piece" 3 19] c1
    by (simp add: collides_iff blocked_def BOARD_WIDTH_def BOARD_HEIGHT_def)
  moreover have "collision createEmptyBoard (PIECES T_piece) 3 (- 2) = Inr False"
    using collision_iff[OF h, of "PIECES T_piece" 3 "- 2"]
    by (auto simp: less_Suc_eq nth_Cons')
  moreover have "collision createEmptyBoard [[0, 0], [0, 0]] 30 30 = Inr False"
    using collision_iff[OF h, of "[[0, 0], [0, 0]]" 30 30]
    by (auto simp: less_Suc_eq nth_Cons')
  ultimately show ?thesis
    using h by simp
qed

subsection \<open>clearLines\<close>

lemma clearLines_scan_eq:
  "clearLines_scan b idx nb cr =
     (nb @ filter (\<lambda>row. \<not> list_all (\<lambda>cell. cell \<noteq> None) row) b,
      cr @ map (\<lambda>i. idx + i) (filter (\<lambda>i. list_all (\<lambda>cell. cell \<noteq> None) (b ! i)) [0..<length b]))"
proof (induction b arbitrary: idx nb cr)
  case Nil
  then show ?case by simp
next
  case (Cons row rest)
  have upt: "[0..<length (row # rest)] = 0 # map Suc [0..<length rest]"
    by (simp add: upt_conv_Cons map_Suc_upt del: upt_Suc)
  show ?case
    unfolding upt by (simp add: Cons.IH filter_map comp_def del: upt_Suc)
qed

lemma filter_index_rows:
  "map (\<lambda>i. b ! i) (filter (\<lambda>i. P (b ! i)) [0..<length b]) = filter P b"
proof -
  have "filter P b = filter P (map (\<lambda>i. b ! i) [0..<length b])"
    by (simp add: map_nth)
  also have "\<dots> = map (\<lambda>i. b ! i) (filter (\<lambda>i. P (b ! i)) [0..<length b])"
    by (simp add: filter_map comp_def)
  finally show ?thesis by simp
qed

lemma length_filter_index:
  "length (filter (\<lambda>i. P (b ! i)) [0..<length b]) = length (filter P b)"
  using arg_cong[OF filter_index_rows[of b P], of length] by simp

lemma wf_cleared:
  assumes "wf_board b"
  shows "wf_board (replicate (length (filter (\<lambda>i. list_all (\<lambda>cell. cell \<noteq> None) (b ! i)) [0..<length b]))
            (replicate (nat BOARD_WIDTH) None) @ filter (\<lambda>row. \<not> list_all (\<lambda>cell. cell \<noteq> None) row) b)"
    (is "wf_board (replicate ?k ?e @ ?keep)")
proof -
  have "?k = length (filter (\<lambda>row. list_all (\<lambda>cell. cell \<noteq> None) row) b)"
    by (rule length_filter_index)
  then have "?k + length ?keep = length b"
    by (simp only: sum_length_filter_compl)
  then have len: "int (length (replicate ?k ?e @ ?keep)) = BOARD_HEIGHT"
    using assms by (simp add: wf_board_def)
  have "\<forall>row \<in> set (replicate ?k ?e @ ?keep). int (length row) = BOARD_WIDTH"
    using assms by (auto simp: wf_board_def list_all_iff BOARD_WIDTH_def)
  then show ?thesis
    using len unfolding wf_board_def list_all_iff by blast
qed

text \<open>
  C6. On a 20 by 10 board the scan of \<open>clearLines\<close> collects the indices of
  exactly the rows without an empty cell, in increasing order, and keeps the
  other rows in their order. The board that is committed, that many empty
  rows followed by the kept rows, is again 20 by 10. With a full row the
  indices become the flashing rows at once, and the board is committed by the
  timeout; without one the list of indices is empty and the only effect is
  \<open>setBoard(b)\<close>.
\<close>

theorem clearLines_spec:
  assumes "wf_board b"
  shows "\<exists>newBoard clearedRows.
           clearLines_scan b 0 [] [] = (newBoard, clearedRows)
         \<and> clearedRows = filter (\<lambda>i. \<forall>cell \<in> set (b ! i). cell \<noteq> None) [0..<20]
         \<and> newBoard = filter (\<lambda>row. \<exists>cell \<in> set row. cell = None) b
         \<and> wf_board (replicate (length clearedRows) (replicate 10 None) @ newBoard)
         \<and> (clearedRows \<noteq> [] \<longrightarrow>
              flashLines (clearLines b s) = clearedRows
            \<and> board (clearLines b s) = board s
            \<and> timeouts (clearLines b s) =
                timeouts s @ [replicate (length clearedRows) (replicate 10 None) @ newBoard]
            \<and> (timeouts s = [] \<longrightarrow>
                 board (flashTimeout (clearLines b s)) =
                   replicate (length clearedRows) (replicate 10 None) @ newBoard
               \<and> flashLines (flashTimeout (clearLines b s)) = []))
         \<and> (clearedRows = [] \<longrightarrow> newBoard = b \<and> clearLines b s = s\<lparr>board := b\<rparr>)"
proof -
  define newBoard where "newBoard = filter (\<lambda>row. \<not> list_all (\<lambda>cell. cell \<noteq> None) row) b"
  define clearedRows where
    "clearedRows = filter (\<lambda>i. list_all (\<lambda>cell. cell \<noteq> None) (b ! i)) [0..<length b]"
  have scan: "clearLines_scan b 0 [] [] = (newBoard, clearedRows)"
    by (simp add: clearLines_scan_eq newBoard_def clearedRows_def)
  have len: "length b = 20"
    using assms by (simp add: wf_board_def BOARD_HEIGHT_def)
  have cr: "clearedRows = filter (\<lambda>i. \<forall>cell \<in> set (b ! i). cell \<noteq> None) [0..<20]"
    unfolding clearedRows_def len list_all_iff ..
  have nb: "newBoard = filter (\<lambda>row. \<exists>cell \<in> set row. cell = None) b"
    unfolding newBoard_def list_all_iff by simp
  have wf: "wf_board (replicate (length clearedRows) (replicate 10 None) @ newBoard)"
    using wf_cleared[OF assms] by (simp add: newBoard_def clearedRows_def BOARD_WIDTH_def)
  have some: "clearedRows \<noteq> [] \<Longrightarrow>
      flashLines (clearLines b s) = clearedRows
    \<and> board (clearLines b s) = board s
    \<and> timeouts (clearLines b s) =
        timeouts s @ [replicate (length clearedRows) (replicate 10 None) @ newBoard]"
    by (simp add: clearLines_def scan Let_def BOARD_WIDTH_def)
  have flush: "clearedRows \<noteq> [] \<Longrightarrow> timeouts s = [] \<Longrightarrow>
      board (flashTimeout (clearLines b s)) =
        replicate (length clearedRows) (replicate 10 None) @ newBoard
    \<and> flashLines (flashTimeout (clearLines b s)) = []"
    using some by (simp add: flashTimeout_def)
  have keep: "clearedRows = [] \<Longrightarrow> newBoard = b"
  proof -
    assume "clearedRows = []"
    then have "length (filter (\<lambda>row. list_all (\<lambda>cell. cell \<noteq> None) row) b) = 0"
      using length_filter_index[of "\<lambda>row. list_all (\<lambda>cell. cell \<noteq> None) row" b]
      by (simp add: clearedRows_def)
    then have "\<forall>row \<in> set b. \<not> list_all (\<lambda>cell. cell \<noteq> None) row"
      by (simp add: filter_empty_conv)
    then show "newBoard = b"
      unfolding newBoard_def by (simp add: filter_id_conv)
  qed
  have none: "clearedRows = [] \<Longrightarrow> clearLines b s = s\<lparr>board := b\<rparr>"
    by (simp add: clearLines_def scan)
  show ?thesis
    using scan cr nb wf some flush keep none by blast
qed

theorem clearLines_spec_witness:
  "wf_board (replicate 19 (replicate 10 None) @ [replicate 10 (Some ''#FF0000'')])
   \<and> clearLines_scan (replicate 19 (replicate 10 None) @ [replicate 10 (Some ''#FF0000'')]) 0 [] []
       = (replicate 19 (replicate 10 None), [19])
   \<and> board (flashTimeout (clearLines
        (replicate 19 (replicate 10 None) @ [replicate 10 (Some ''#FF0000'')])
        (initialGame (\<lambda>k. 0)))) = createEmptyBoard
   \<and> wf_board createEmptyBoard
   \<and> clearLines createEmptyBoard (initialGame (\<lambda>k. 0)) = initialGame (\<lambda>k. 0)"
proof -
  let ?b = "replicate 19 (replicate 10 None) @ [replicate 10 (Some ''#FF0000'')]"
  let ?s = "initialGame (\<lambda>k. 0)"
  have h: "wf_board ?b"
    by code_simp
  have scan: "clearLines_scan ?b 0 [] [] = (replicate 19 (replicate 10 None), [19])"
    by code_simp
  have t: "timeouts ?s = []"
    by code_simp
  have "board (flashTimeout (clearLines ?b ?s)) = replicate 1 (replicate 10 None) @ replicate 19 (replicate 10 None)"
    using clearLines_spec[OF h, of ?s] scan t by simp
  moreover have "replicate 1 (replicate 10 None) @ replicate 19 (replicate 10 None) = createEmptyBoard"
    by code_simp
  moreover have scan0: "clearLines_scan createEmptyBoard 0 [] [] = (createEmptyBoard, [])"
    by code_simp
  moreover have "clearLines createEmptyBoard ?s = ?s\<lparr>board := createEmptyBoard\<rparr>"
    using clearLines_spec[OF wf_createEmptyBoard, of ?s] scan0 by simp
  moreover have "board ?s = createEmptyBoard"
    by code_simp
  ultimately show ?thesis
    using h scan wf_createEmptyBoard by simp
qed

subsection \<open>The piece supply\<close>

lemma shuffle_mset:
  "k < length ps \<Longrightarrow> mset (fst (shuffle rnd c k ps)) = mset ps"
proof (induction k arbitrary: c ps)
  case 0
  then show ?case by simp
next
  case (Suc k)
  let ?j = "rnd c mod (Suc k + 1)"
  have j: "?j < length ps"
  proof -
    have "?j < Suc (Suc k)" by simp
    then have "?j \<le> Suc k" by (simp only: less_Suc_eq_le)
    then show ?thesis using Suc.prems by (rule le_less_trans)
  qed
  have "mset (ps[Suc k := ps ! ?j, ?j := ps ! Suc k]) = mset ps"
    using Suc.prems j by (simp add: mset_swap)
  then show ?case
    using Suc.prems Suc.IH[of "ps[Suc k := ps ! ?j, ?j := ps ! Suc k]" "c + 1"]
    by (simp add: Let_def)
qed

lemma shuffle_calls: "snd (shuffle rnd c k ps) = c + k"
  by (induction k arbitrary: c ps) (simp_all add: Let_def)

lemma draws_pop:
  "n \<le> length bag \<Longrightarrow> bag \<noteq> [] \<or> n = 0 \<Longrightarrow>
     draws rnd n (bag, c) = (take n (rev bag), (take (length bag - n) bag, c))"
proof (induction n arbitrary: bag)
  case 0
  then show ?case by simp
next
  case (Suc n)
  then have ne: "bag \<noteq> []" by auto
  then obtain xs x where bag: "bag = xs @ [x]"
    by (metis rev_exhaust)
  have g: "getNextPiece rnd (xs @ [x], c) = (\<lparr>shape = PIECES x, color = COLORS x, name = x\<rparr>, (xs, c))"
    by (simp add: getNextPiece_def refill_def)
  have n: "n \<le> length xs" using Suc.prems bag by simp
  have "xs \<noteq> [] \<or> n = 0" using n by auto
  from Suc.IH[OF n this] show ?case
    by (simp add: g bag)
qed

lemma draws_add:
  "draws rnd (a + b) st =
     (case draws rnd a st of (xs, st1) \<Rightarrow> (case draws rnd b st1 of (ys, st2) \<Rightarrow> (xs @ ys, st2)))"
  by (induction a arbitrary: st) (auto split: prod.splits)

lemma draws_bag:
  "\<exists>run. draws rnd 7 ([], c) = (run, ([], c + 6)) \<and> mset run = mset PIECE_KEYS"
proof -
  have keys: "length PIECE_KEYS = 7" by (simp add: PIECE_KEYS_def)
  obtain bag where sh: "shuffle rnd c 6 PIECE_KEYS = (bag, c + 6)"
    using shuffle_calls[of rnd c 6 PIECE_KEYS] by (cases "shuffle rnd c 6 PIECE_KEYS") auto
  have m: "mset bag = mset PIECE_KEYS"
    using shuffle_mset[of 6 PIECE_KEYS rnd c] sh by (simp add: keys)
  have len: "length bag = 7"
    using mset_eq_length[OF m] by (simp add: keys)
  then have ne: "bag \<noteq> []" by auto
  have first: "getNextPiece rnd ([], c) = getNextPiece rnd (bag, c + 6)"
    using ne by (simp add: getNextPiece_def refill_def sh keys)
  have seven: "(7::nat) = Suc 6" by simp
  have "draws rnd 7 ([], c) = draws rnd 7 (bag, c + 6)"
    unfolding seven draws.simps first ..
  also have "\<dots> = (take 7 (rev bag), (take (length bag - 7) bag, c + 6))"
    using len ne by (intro draws_pop) auto
  finally show ?thesis
    using len m by simp
qed

lemma draws_runs:
  "\<exists>pre c'. draws rnd (7 * k) ([], c) = (pre, ([], c')) \<and> length pre = 7 * k"
proof (induction k)
  case 0
  then show ?case by simp
next
  case (Suc k)
  then obtain pre c' where pre: "draws rnd (7 * k) ([], c) = (pre, ([], c'))" "length pre = 7 * k"
    by blast
  obtain run where run: "draws rnd 7 ([], c') = (run, ([], c' + 6))" "mset run = mset PIECE_KEYS"
    using draws_bag by blast
  have "length run = 7" using mset_eq_length[OF run(2)] by (simp add: PIECE_KEYS_def)
  moreover have "draws rnd (7 * k + 7) ([], c) = (pre @ run, ([], c' + 6))"
    unfolding draws_add using pre run by simp
  moreover have "7 * Suc k = 7 * k + 7" by simp
  ultimately show ?case using pre by (simp add: add.commute)
qed

text \<open>
  C7. Start from an empty bag, where the next draw refills, and draw any
  number of pieces. The draws \<open>7k, \<dots>, 7k + 6\<close> are the runs between two
  refills. Whatever the random source, each run is a permutation of the seven
  names: every name occurs in it exactly once.
\<close>

theorem bag_runs:
  "mset (take 7 (drop (7 * k) (fst (draws rnd (7 * k + 7 + m) ([], c))))) = mset PIECE_KEYS
   \<and> (\<forall>n. count (mset (take 7 (drop (7 * k) (fst (draws rnd (7 * k + 7 + m) ([], c)))))) n = 1)"
proof -
  obtain pre c' where pre: "draws rnd (7 * k) ([], c) = (pre, ([], c'))" "length pre = 7 * k"
    using draws_runs by blast
  obtain run where run: "draws rnd 7 ([], c') = (run, ([], c' + 6))" "mset run = mset PIECE_KEYS"
    using draws_bag by blast
  obtain post st where post: "draws rnd m ([], c' + 6) = (post, st)"
    by (cases "draws rnd m ([], c' + 6)")
  have "draws rnd (7 * k + 7) ([], c) = (pre @ run, ([], c' + 6))"
    unfolding draws_add using pre run by simp
  then have "draws rnd (7 * k + 7 + m) ([], c) = ((pre @ run) @ post, st)"
    unfolding draws_add[of rnd "7 * k + 7" m] using post by simp
  then have eq: "take 7 (drop (7 * k) (fst (draws rnd (7 * k + 7 + m) ([], c)))) = run"
    using pre(2) mset_eq_length[OF run(2)] by (simp add: PIECE_KEYS_def)
  have "count (mset PIECE_KEYS) n = 1" for n
    by (cases n) (simp_all add: PIECE_KEYS_def)
  then show ?thesis
    unfolding eq using run(2) by simp
qed

subsection \<open>ghostY\<close>

lemma rowSome_zero: "\<forall>k<length cells. cells ! k = 0 \<Longrightarrow> rowSome b cells dx px ny = Inr False"
  by (induction cells arbitrary: dx) (auto simp: All_less_Suc2)

lemma shapeSome_zero:
  "\<forall>k<length sh. \<forall>dx<length (sh ! k). sh ! k ! dx = 0 \<Longrightarrow> shapeSome b sh dy px py = Inr False"
  by (induction sh arbitrary: dy) (auto simp: rowSome_zero bindE_def All_less_Suc2)

lemma collision_zero:
  "\<forall>k<length sh. \<forall>dx<length (sh ! k). sh ! k ! dx = 0 \<Longrightarrow> collision b sh px py = Inr False"
  by (simp add: collision_def shapeSome_zero)

lemma ghostY_loop_zero:
  assumes z: "\<forall>k<length sh. \<forall>dx<length (sh ! k). sh ! k ! dx = 0"
  shows "ghostY_loop b sh px y = None"
proof (cases "ghostY_loop b sh px y")
  case None
  then show ?thesis .
next
  case (Some r)
  have step: "\<not> (\<forall>k<length sh'. \<forall>dx<length (sh' ! k). sh' ! k ! dx = 0)"
    if ih: "\<And>b sh px y r. loop b sh px y = Some r \<Longrightarrow>
              \<not> (\<forall>k<length sh. \<forall>dx<length (sh ! k). sh ! k ! dx = 0)"
      and body: "(case collision b' sh' px' (y' + 1) of
                    Inl e \<Rightarrow> Some (Inl e)
                  | Inr hit \<Rightarrow> if hit then Some (Inr y') else loop b' sh' px' (y' + 1)) = Some r'"
    for loop b' sh' px' y' r'
  proof
    assume z': "\<forall>k<length sh'. \<forall>dx<length (sh' ! k). sh' ! k ! dx = 0"
    then have "loop b' sh' px' (y' + 1) = Some r'"
      using body by (simp add: collision_zero)
    from ih[OF this] z' show False by (rule notE)
  qed
  have "\<not> (\<forall>k<length sh. \<forall>dx<length (sh ! k). sh ! k ! dx = 0)"
    using Some
    by (rule ghostY_loop.raw_induct[rotated,
          where P = "\<lambda>b sh px y r. \<not> (\<forall>k<length sh. \<forall>dx<length (sh ! k). sh ! k ! dx = 0)"])
       (rule step)
  from this z show ?thesis by (rule notE)
qed

lemma collides_floor:
  assumes "dy < length sh" "dx < length (sh ! dy)" "sh ! dy ! dx \<noteq> 0" "19 \<le> y"
  shows "collides b sh px (y + 1)"
  unfolding collides_iff using assms
  by (intro exI[of _ dy] conjI exI[of _ dx]) (simp_all add: blocked_def BOARD_HEIGHT_def)

lemma ghostY_loop_terminates:
  assumes wf: "wf_board b"
    and cell: "dy < length sh" "dx < length (sh ! dy)" "sh ! dy ! dx \<noteq> 0"
  shows "\<exists>r. ghostY_loop b sh px y = Some (Inr r) \<and> y \<le> r \<and> collides b sh px (r + 1)
           \<and> (\<forall>y'. y \<le> y' \<and> y' < r \<longrightarrow> \<not> collides b sh px (y' + 1))"
proof (induction "nat (19 - y)" arbitrary: y)
  case 0
  then have "19 \<le> y" by simp
  then have c: "collides b sh px (y + 1)"
    using collides_floor[OF cell] by simp
  have "ghostY_loop b sh px y = Some (Inr y)"
    by (subst ghostY_loop.simps) (simp add: collision_wf[OF wf] c)
  then show ?case using c by auto
next
  case (Suc n)
  show ?case
  proof (cases "collides b sh px (y + 1)")
    case True
    have "ghostY_loop b sh px y = Some (Inr y)"
      by (subst ghostY_loop.simps) (simp add: collision_wf[OF wf] True)
    then show ?thesis using True by auto
  next
    case False
    have step: "ghostY_loop b sh px y = ghostY_loop b sh px (y + 1)"
      by (subst ghostY_loop.simps) (simp add: collision_wf[OF wf] False)
    have "n = nat (19 - (y + 1))" using Suc.hyps(2) by simp
    from Suc.hyps(1)[OF this] obtain r where r: "ghostY_loop b sh px (y + 1) = Some (Inr r)"
        "y + 1 \<le> r" "collides b sh px (r + 1)"
        "\<forall>y'. y + 1 \<le> y' \<and> y' < r \<longrightarrow> \<not> collides b sh px (y' + 1)"
      by blast
    have "\<forall>y'. y \<le> y' \<and> y' < r \<longrightarrow> \<not> collides b sh px (y' + 1)"
    proof (intro allI impI)
      fix y' assume a: "y \<le> y' \<and> y' < r"
      show "\<not> collides b sh px (y' + 1)"
      proof (cases "y' = y")
        case True then show ?thesis using False by simp
      next
        case False then show ?thesis using a r(4) by simp
      qed
    qed
    then show ?thesis using step r by auto
  qed
qed

text \<open>
  C10. On a 20 by 10 board, when the shape of the current piece has a set
  cell, the loop of \<open>ghostY\<close> ends and returns the least \<open>r \<ge> pos.y\<close> with a
  collision at \<open>(pos.x, r + 1)\<close>. When the shape has no set cell, the collision
  test is false at every depth and the loop never returns. \<open>ghostY\<close> only
  returns a number: it sets no state.
\<close>

theorem ghostY_spec:
  assumes "wf_board (board s)"
  shows "if \<exists>dy<length (shape (currentPiece s)). \<exists>dx<length (shape (currentPiece s) ! dy).
              shape (currentPiece s) ! dy ! dx \<noteq> 0
         then \<exists>r. ghostY s = Some (Inr r) \<and> ypos (pos s) \<le> r
                \<and> collision (board s) (shape (currentPiece s)) (xpos (pos s)) (r + 1) = Inr True
                \<and> (\<forall>y'. ypos (pos s) \<le> y' \<and> y' < r \<longrightarrow>
                      collision (board s) (shape (currentPiece s)) (xpos (pos s)) (y' + 1)
                        = Inr False)
         else ghostY s = None
              \<and> (\<forall>y'. collision (board s) (shape (currentPiece s)) (xpos (pos s)) y' = Inr False)"
proof (cases "\<exists>dy<length (shape (currentPiece s)). \<exists>dx<length (shape (currentPiece s) ! dy).
                shape (currentPiece s) ! dy ! dx \<noteq> 0")
  case True
  then obtain dy dx where cell: "dy < length (shape (currentPiece s))"
      "dx < length (shape (currentPiece s) ! dy)" "shape (currentPiece s) ! dy ! dx \<noteq> 0"
    by blast
  from ghostY_loop_terminates[OF assms cell, of "xpos (pos s)" "ypos (pos s)"]
  have "\<exists>r. ghostY s = Some (Inr r) \<and> ypos (pos s) \<le> r
          \<and> collision (board s) (shape (currentPiece s)) (xpos (pos s)) (r + 1) = Inr True
          \<and> (\<forall>y'. ypos (pos s) \<le> y' \<and> y' < r \<longrightarrow>
                collision (board s) (shape (currentPiece s)) (xpos (pos s)) (y' + 1) = Inr False)"
    by (simp add: ghostY_def collision_wf[OF assms])
  then show ?thesis
    using True by (simp only: if_True)
next
  case False
  then have z: "\<forall>k<length (shape (currentPiece s)). \<forall>dx<length (shape (currentPiece s) ! k).
                  shape (currentPiece s) ! k ! dx = 0"
    by blast
  have "ghostY s = None"
    unfolding ghostY_def by (rule ghostY_loop_zero[OF z])
  moreover have "\<forall>y'. collision (board s) (shape (currentPiece s)) (xpos (pos s)) y' = Inr False"
    using collision_zero[OF z] by simp
  ultimately show ?thesis
    using False by (simp only: if_False simp_thms)
qed

theorem ghostY_spec_witness:
  "wf_board (board (initialGame (\<lambda>k. 0)))
   \<and> shape (currentPiece (initialGame (\<lambda>k. 0))) = [[1, 1, 1, 1]]
   \<and> ghostY (initialGame (\<lambda>k. 0)) = Some (Inr 19)
   \<and> (\<exists>r. ghostY (initialGame (\<lambda>k. 0)) = Some (Inr r) \<and> ypos (pos (initialGame (\<lambda>k. 0))) \<le> r)
   \<and> ghostY ((initialGame (\<lambda>k. 0))\<lparr>currentPiece :=
         \<lparr>shape = [[0, 0]], color = ''#FFFF00'', name = O_piece\<rparr>\<rparr>) = None"
proof -
  let ?s = "initialGame (\<lambda>k. 0)"
  let ?z = "?s\<lparr>currentPiece := \<lparr>shape = [[0, 0]], color = ''#FFFF00'', name = O_piece\<rparr>\<rparr>"
  have h: "wf_board (board ?s)"
    by code_simp
  have sh: "shape (currentPiece ?s) = [[1, 1, 1, 1]]"
    by code_simp
  have e: "ghostY ?s = Some (Inr 19)"
    by code_simp
  have cell: "\<exists>dy<length (shape (currentPiece ?s)). \<exists>dx<length (shape (currentPiece ?s) ! dy).
                shape (currentPiece ?s) ! dy ! dx \<noteq> 0"
    unfolding sh by (rule exI[of _ 0], simp, rule exI[of _ 0], simp)
  have r: "\<exists>r. ghostY ?s = Some (Inr r) \<and> ypos (pos ?s) \<le> r"
    using ghostY_spec[OF h] cell by (simp only: if_True) blast
  have hz: "wf_board (board ?z)"
    using h by simp
  have "\<not> (\<exists>dy<length (shape (currentPiece ?z)). \<exists>dx<length (shape (currentPiece ?z) ! dy).
                shape (currentPiece ?z) ! dy ! dx \<noteq> 0)"
    by (auto simp: less_Suc_eq nth_Cons')
  then have "ghostY ?z = None"
    using ghostY_spec[OF hz] by (simp only: if_False)
  then show ?thesis
    using h sh e r by simp
qed

subsection \<open>mergePiece\<close>

lemma setCell_wf:
  assumes "wf_board b" "0 \<le> ny" "ny < BOARD_HEIGHT" "0 \<le> nx" "nx < BOARD_WIDTH"
  shows "setCell b (nat ny) (nat nx) c = Inr (b[nat ny := (b ! nat ny)[nat nx := Some c]])"
    and "wf_board (b[nat ny := (b ! nat ny)[nat nx := Some c]])"
proof -
  have ny: "nat ny < length b"
    using assms by (simp add: wf_board_def nat_less_iff)
  have nx: "nat nx < length (b ! nat ny)"
    using assms ny by (simp add: wf_board_def list_all_length nat_less_iff)
  show "setCell b (nat ny) (nat nx) c = Inr (b[nat ny := (b ! nat ny)[nat nx := Some c]])"
    using ny nx by (simp add: setCell_def js_index_def)
  show "wf_board (b[nat ny := (b ! nat ny)[nat nx := Some c]])"
    using assms(1) ny by (auto simp: wf_board_def list_all_length nth_list_update)
qed

lemma painted_row_Nil: "painted_row [] dx px j = False"
  by (simp add: painted_row_def)

lemma painted_row_Cons:
  "painted_row (cell # cells) dx px j =
     ((cell \<noteq> 0 \<and> px + int dx = int j) \<or> painted_row cells (dx + 1) px j)"
  by (simp add: painted_row_def Ex_less_Suc2 add_ac)

lemma mergeRow_wf:
  assumes "wf_board nb"
  shows "\<exists>b'. mergeRow cells dx px ny c nb = Inr b' \<and> wf_board b' \<and>
           (\<forall>i<20. \<forall>j<10. b' ! i ! j =
              (if int i = ny \<and> painted_row cells dx px j then Some c else nb ! i ! j))"
  using assms
proof (induction cells arbitrary: dx nb)
  case Nil
  then show ?case by (simp add: painted_row_Nil)
next
  case (Cons cell cells)
  show ?case
  proof (cases "cell \<noteq> 0 \<and> ny \<ge> 0 \<and> ny < BOARD_HEIGHT \<and> px + int dx \<ge> 0 \<and> px + int dx < BOARD_WIDTH")
    case True
    let ?nb = "nb[nat ny := (nb ! nat ny)[nat (px + int dx) := Some c]]"
    have s: "setCell nb (nat ny) (nat (px + int dx)) c = Inr ?nb" and w: "wf_board ?nb"
      using setCell_wf[OF Cons.prems, of ny "px + int dx" c] True by auto
    from Cons.IH[OF w, of "dx + 1"] obtain b' where b': "mergeRow cells (dx + 1) px ny c ?nb = Inr b'"
      "wf_board b'"
      "\<forall>i<20. \<forall>j<10. b' ! i ! j =
              (if int i = ny \<and> painted_row cells (dx + 1) px j then Some c else ?nb ! i ! j)"
      by blast
    have eq: "mergeRow (cell # cells) dx px ny c nb = Inr b'"
      using True s b'(1) by (simp add: bindE_def Let_def)
    have len: "length nb = 20" "\<forall>i<20. length (nb ! i) = 10"
      using Cons.prems by (auto simp: wf_board_def list_all_length BOARD_HEIGHT_def BOARD_WIDTH_def)
    have "b' ! i ! j = (if int i = ny \<and> painted_row (cell # cells) dx px j then Some c else nb ! i ! j)"
      if "i < 20" "j < 10" for i j
    proof -
      obtain x y where xy: "px + int dx = int x" "ny = int y"
        using True by (metis nat_0_le)
      have "y < 20" "x < 10"
        using True xy by (simp_all add: BOARD_HEIGHT_def BOARD_WIDTH_def)
      then have "?nb ! i ! j = (if int i = ny \<and> px + int dx = int j then Some c else nb ! i ! j)"
        using that len unfolding xy by (auto simp: nth_list_update)
      then show ?thesis
        using b'(3) that True by (auto simp: painted_row_Cons)
    qed
    then show ?thesis using eq b'(2) by blast
  next
    case False
    from Cons.IH[OF Cons.prems, of "dx + 1"] obtain b' where b': "mergeRow cells (dx + 1) px ny c nb = Inr b'"
      "wf_board b'"
      "\<forall>i<20. \<forall>j<10. b' ! i ! j =
              (if int i = ny \<and> painted_row cells (dx + 1) px j then Some c else nb ! i ! j)"
      by blast
    have eq: "mergeRow (cell # cells) dx px ny c nb = Inr b'"
      using False b'(1) by (auto simp: Let_def)
    have "b' ! i ! j = (if int i = ny \<and> painted_row (cell # cells) dx px j then Some c else nb ! i ! j)"
      if "i < 20" "j < 10" for i j
      using b'(3) that False by (auto simp: painted_row_Cons BOARD_HEIGHT_def BOARD_WIDTH_def)
    then show ?thesis using eq b'(2) by blast
  qed
qed


lemma mergeRows_wf:
  assumes "wf_board nb"
  shows "\<exists>b'. mergeRows sh dy px py c nb = Inr b' \<and> wf_board b' \<and>
           (\<forall>i<20. \<forall>j<10. b' ! i ! j =
              (if \<exists>k<length sh. py + int (dy + k) = int i \<and> painted_row (sh ! k) 0 px j
               then Some c else nb ! i ! j))"
  using assms
proof (induction sh arbitrary: dy nb)
  case Nil
  then show ?case by simp
next
  case (Cons row rows)
  from mergeRow_wf[OF Cons.prems, of row 0 px "py + int dy" c] obtain b1 where
      b1: "mergeRow row 0 px (py + int dy) c nb = Inr b1" "wf_board b1"
      "\<forall>i<20. \<forall>j<10. b1 ! i ! j =
              (if int i = py + int dy \<and> painted_row row 0 px j then Some c else nb ! i ! j)"
    by blast
  from Cons.IH[OF b1(2), of "dy + 1"] obtain b' where
      b': "mergeRows rows (dy + 1) px py c b1 = Inr b'" "wf_board b'"
      "\<forall>i<20. \<forall>j<10. b' ! i ! j =
              (if \<exists>k<length rows. py + int (dy + 1 + k) = int i \<and> painted_row (rows ! k) 0 px j
               then Some c else b1 ! i ! j)"
    by blast
  have eq: "mergeRows (row # rows) dy px py c nb = Inr b'"
    using b1(1) b'(1) by (simp add: bindE_def)
  have "b' ! i ! j =
          (if \<exists>k<length (row # rows). py + int (dy + k) = int i \<and> painted_row ((row # rows) ! k) 0 px j
           then Some c else nb ! i ! j)"
    if "i < 20" "j < 10" for i j
    using b'(3) b1(3) that by (auto simp: Ex_less_Suc2 add_ac)
  then show ?case
    using eq b'(2) by blast
qed

lemma mergePiece_wf:
  assumes "wf_board b"
  shows "\<exists>b'. mergePiece sh px py c b = Inr b' \<and> wf_board b' \<and>
           (\<forall>ny<20. \<forall>nx<10. b' ! ny ! nx =
              (if \<exists>dy<length sh. \<exists>dx<length (sh ! dy).
                    sh ! dy ! dx \<noteq> 0 \<and> px + int dx = int nx \<and> py + int dy = int ny
               then Some c else b ! ny ! nx))"
proof -
  from mergeRows_wf[OF assms, of sh 0 px py c] obtain b' where
      b': "mergeRows sh 0 px py c b = Inr b'" "wf_board b'"
      "\<forall>i<20. \<forall>j<10. b' ! i ! j =
              (if \<exists>k<length sh. py + int (0 + k) = int i \<and> painted_row (sh ! k) 0 px j
               then Some c else b ! i ! j)"
    by blast
  have "(\<exists>k<length sh. py + int (0 + k) = int i \<and> painted_row (sh ! k) 0 px j) \<longleftrightarrow>
        (\<exists>dy<length sh. \<exists>dx<length (sh ! dy).
            sh ! dy ! dx \<noteq> 0 \<and> px + int dx = int j \<and> py + int dy = int i)" for i j
    by (auto simp: painted_row_def)
  then show ?thesis
    using b' by (simp add: mergePiece_def)
qed

lemma copyRows_spec:
  "copyRows refs (n, m) = (rs, (n', m')) \<Longrightarrow>
     rs = [n..<n + length refs] \<and> n' = n + length refs \<and> (\<forall>a<n. m' a = m a) \<and>
     ((\<forall>a \<in> set refs. a < n) \<longrightarrow> map m' rs = map m refs)"
proof (induction refs arbitrary: n m rs n' m')
  case Nil
  then show ?case by simp
next
  case (Cons a as)
  obtain rs1 n1 m1 where r: "copyRows as (Suc n, m(n := m a)) = (rs1, (n1, m1))"
    by (metis prod.exhaust)
  from Cons.IH[OF r] have ih: "rs1 = [Suc n..<Suc n + length as]" "n1 = Suc n + length as"
      "\<forall>b<Suc n. m1 b = (m(n := m a)) b"
      "(\<forall>b \<in> set as. b < Suc n) \<longrightarrow> map m1 rs1 = map (m(n := m a)) as"
    by auto
  have eq: "rs = n # rs1" "n' = n1" "m' = m1"
    using Cons.prems r by auto
  have "[n..<n + length (a # as)] = n # [Suc n..<Suc n + length as]"
    by (simp add: upt_conv_Cons del: upt_Suc)
  then have 1: "rs = [n..<n + length (a # as)]"
    using eq(1) ih(1) by (simp only:)
  have 2: "\<forall>b<n. m' b = m b"
    using ih(3) eq by auto
  have 3: "map m' rs = map m (a # as)" if "\<forall>b \<in> set (a # as). b < n"
  proof -
    have "map (m(n := m a)) as = map m as"
      using that by (intro map_cong) auto
    moreover have "m1 n = m a" using ih(3) by simp
    ultimately show ?thesis using ih(4) that eq by auto
  qed
  show ?case using 1 2 3 eq ih(2) by auto
qed

lemma setCell_refines:
  assumes "distinct refs"
  shows "refines refs (n, m) (setCell_st refs ny nx c (n, m)) (setCell (map m refs) ny nx c)"
proof (cases "ny < length refs")
  case False
  then show ?thesis by (simp add: refines_def setCell_st_def setCell_def js_index_def)
next
  case True
  have upd: "map (m(refs ! ny := r)) refs = (map m refs)[ny := r]" for r
    using assms True
    by (intro nth_equalityI) (auto simp: nth_list_update nth_eq_iff_index_eq)
  show ?thesis
    using True upd by (auto simp: refines_def setCell_st_def setCell_def js_index_def)
qed


lemma refines_refl: "refines refs (n, m) (Inr (n, m)) (Inr (map m refs))"
  by (simp add: refines_def)

lemma refines_bind:
  assumes "refines refs (n, m) rs rb"
    and "\<And>m'. refines refs (n, m') (f (n, m')) (g (map m' refs))"
  shows "refines refs (n, m) (bindE rs f) (bindE rb g)"
proof (cases rb)
  case (Inl e)
  then show ?thesis using assms(1) by (simp add: refines_def bindE_def)
next
  case (Inr b')
  then obtain m' where m': "rs = Inr (n, m')" "map m' refs = b'" "\<forall>a. a \<notin> set refs \<longrightarrow> m' a = m a"
    using assms(1) by (auto simp: refines_def)
  have "refines refs (n, m') (f (n, m')) (g b')"
    using assms(2)[of m'] m'(2) by simp
  then have "refines refs (n, m) (f (n, m')) (g b')"
    using m'(3) by (auto simp: refines_def split: sum.splits)
  then show ?thesis
    using Inr m'(1) by (simp add: bindE_def)
qed

lemma mergeRow_refines:
  assumes "distinct refs"
  shows "refines refs (n, m) (mergeRow_st cells dx px ny c refs (n, m))
           (mergeRow cells dx px ny c (map m refs))"
proof (induction cells arbitrary: dx m)
  case Nil
  then show ?case by (simp add: refines_refl)
next
  case (Cons cell cells)
  show ?case
  proof (cases "cell \<noteq> 0 \<and> ny \<ge> 0 \<and> ny < BOARD_HEIGHT \<and> px + int dx \<ge> 0 \<and> px + int dx < BOARD_WIDTH")
    case True
    have "refines refs (n, m)
            (bindE (setCell_st refs (nat ny) (nat (px + int dx)) c (n, m))
               (mergeRow_st cells (dx + 1) px ny c refs))
            (bindE (setCell (map m refs) (nat ny) (nat (px + int dx)) c)
               (mergeRow cells (dx + 1) px ny c))"
      by (rule refines_bind[OF setCell_refines[OF assms] Cons.IH])
    then show ?thesis using True by (simp add: Let_def)
  next
    case False
    then show ?thesis using Cons.IH[where dx = "dx + 1" and m = m] by (auto simp: Let_def)
  qed
qed

lemma mergeRows_refines:
  assumes "distinct refs"
  shows "refines refs (n, m) (mergeRows_st sh dy px py c refs (n, m))
           (mergeRows sh dy px py c (map m refs))"
proof (induction sh arbitrary: dy m)
  case Nil
  then show ?case by (simp add: refines_refl)
next
  case (Cons row rows)
  show ?case
    unfolding mergeRows_st.simps mergeRows.simps
    by (rule refines_bind[OF mergeRow_refines[OF assms] Cons.IH])
qed

lemma mergePiece_st_refines:
  assumes "\<forall>a \<in> set baseBoard. a < n"
  shows "(case mergePiece sh px py c (map m baseBoard) of
            Inl e \<Rightarrow> mergePiece_st sh px py c baseBoard (n, m) = Inl e
          | Inr b' \<Rightarrow>
              (\<exists>newBoard n' m'.
                 mergePiece_st sh px py c baseBoard (n, m) = Inr (newBoard, (n', m')) \<and>
                 map m' newBoard = b' \<and>
                 (\<forall>a<n. m' a = m a) \<and>
                 map m' baseBoard = map m baseBoard))"
proof -
  obtain newBoard n1 m1 where cp: "copyRows baseBoard (n, m) = (newBoard, (n1, m1))"
    by (metis prod.exhaust)
  from copyRows_spec[OF cp] assms have c: "newBoard = [n..<n + length baseBoard]"
      "n1 = n + length baseBoard" "\<forall>a<n. m1 a = m a" "map m1 newBoard = map m baseBoard"
    by auto
  have d: "distinct newBoard" and fresh: "\<forall>a<n. a \<notin> set newBoard"
    using c(1) by auto
  have r: "refines newBoard (n1, m1) (mergeRows_st sh 0 px py c newBoard (n1, m1))
             (mergeRows sh 0 px py c (map m baseBoard))"
    using mergeRows_refines[OF d, of n1 m1 sh 0 px py c] c(4) by simp
  show ?thesis
  proof (cases "mergeRows sh 0 px py c (map m baseBoard)")
    case (Inl e)
    then show ?thesis
      using r by (simp add: refines_def mergePiece_def mergePiece_st_def cp bindE_def)
  next
    case (Inr b')
    then obtain m' where m': "mergeRows_st sh 0 px py c newBoard (n1, m1) = Inr (n1, m')"
        "map m' newBoard = b'" "\<forall>a. a \<notin> set newBoard \<longrightarrow> m' a = m1 a"
      using r by (auto simp: refines_def)
    have old: "\<forall>a<n. m' a = m a"
      using m'(3) fresh c(3) by simp
    then have "map m' baseBoard = map m baseBoard"
      using assms by (intro map_cong) auto
    then show ?thesis
      using Inr m' old by (simp add: mergePiece_def mergePiece_st_def cp bindE_def)
  qed
qed

text \<open>
  C9. Let the rows of a 20 by 10 board lie in a store. \<open>mergePiece\<close> returns a
  board of new row arrays, never an error, whatever the shape and the anchor.
  Each cell of the 20 by 10 grid that a set cell of the shape lands on holds
  the colour, every other cell is the cell of the argument, and set cells
  that land outside the grid leave no trace. No row array that existed before
  the call is changed, so the argument reads as before.
\<close>

theorem mergePiece_spec:
  assumes "wf_board (map m baseBoard)" and "list_all (\<lambda>a. a < n) baseBoard"
  shows "\<exists>newBoard n' m' b'.
           mergePiece_st sh px py c baseBoard (n, m) = Inr (newBoard, (n', m'))
         \<and> mergePiece sh px py c (map m baseBoard) = Inr b'
         \<and> map m' newBoard = b'
         \<and> wf_board b'
         \<and> (\<forall>ny<20. \<forall>nx<10. b' ! ny ! nx =
               (if \<exists>dy<length sh. \<exists>dx<length (sh ! dy).
                     sh ! dy ! dx \<noteq> 0 \<and> px + int dx = int nx \<and> py + int dy = int ny
                then Some c else map m baseBoard ! ny ! nx))
         \<and> map m' baseBoard = map m baseBoard
         \<and> (\<forall>a<n. m' a = m a)"
proof -
  from mergePiece_wf[OF assms(1), of sh px py c] obtain b' where
      b': "mergePiece sh px py c (map m baseBoard) = Inr b'" "wf_board b'"
      "\<forall>ny<20. \<forall>nx<10. b' ! ny ! nx =
               (if \<exists>dy<length sh. \<exists>dx<length (sh ! dy).
                     sh ! dy ! dx \<noteq> 0 \<and> px + int dx = int nx \<and> py + int dy = int ny
                then Some c else map m baseBoard ! ny ! nx)"
    by blast
  have "\<forall>a \<in> set baseBoard. a < n"
    using assms(2) by (simp add: list_all_iff)
  from mergePiece_st_refines[OF this, of sh px py c m] obtain newBoard n' m' where
      st: "mergePiece_st sh px py c baseBoard (n, m) = Inr (newBoard, (n', m'))"
      "map m' newBoard = b'" "\<forall>a<n. m' a = m a" "map m' baseBoard = map m baseBoard"
    unfolding b'(1) by auto
  show ?thesis
    using b' st by blast
qed

theorem mergePiece_spec_witness:
  "wf_board (map (\<lambda>a. replicate 10 None) [0..<20])
   \<and> list_all (\<lambda>a. a < 20) [0..<20]
   \<and> (\<exists>newBoard n' m'.
         mergePiece_st (PIECES T_piece) 3 (- 1) ''#AA00FF'' [0..<20] (20, \<lambda>a. replicate 10 None)
           = Inr (newBoard, (n', m'))
       \<and> map m' [0..<20] = createEmptyBoard
       \<and> map m' newBoard =
           createEmptyBoard[0 := [None, None, None, None, Some ''#AA00FF'', None, None, None, None, None]])
   \<and> mergePiece (PIECES T_piece) 3 (- 1) ''#AA00FF'' createEmptyBoard =
       Inr (createEmptyBoard[0 := [None, None, None, None, Some ''#AA00FF'', None, None, None, None, None]])"
proof -
  let ?m = "\<lambda>a::nat. replicate 10 (None :: cell)"
  have b: "map ?m [0..<20] = createEmptyBoard"
    by code_simp
  have h1: "wf_board (map ?m [0..<20])"
    unfolding b by (rule wf_createEmptyBoard)
  have h2: "list_all (\<lambda>a. a < 20) [0..<20]"
    by code_simp
  have e: "mergePiece (PIECES T_piece) 3 (- 1) ''#AA00FF'' createEmptyBoard =
       Inr (createEmptyBoard[0 := [None, None, None, None, Some ''#AA00FF'', None, None, None, None, None]])"
    by code_simp
  from mergePiece_spec[OF h1 h2, of "PIECES T_piece" 3 "- 1" "''#AA00FF''"]
  have "\<exists>newBoard n' m'.
         mergePiece_st (PIECES T_piece) 3 (- 1) ''#AA00FF'' [0..<20] (20, ?m)
           = Inr (newBoard, (n', m'))
       \<and> map m' [0..<20] = createEmptyBoard
       \<and> map m' newBoard =
           createEmptyBoard[0 := [None, None, None, None, Some ''#AA00FF'', None, None, None, None, None]]"
    unfolding b e by blast
  then show ?thesis
    using h1 h2 e by blast
qed

subsection \<open>rotate\<close>

lemma js_rem_nonneg: "0 \<le> a \<Longrightarrow> js_rem a 4 = a mod 4"
  by (cases "a = 0") (simp_all add: js_rem_def)

lemma tryKicks_find:
  assumes "wf_board (board s)"
  shows "tryKicks rotatedShape to kicks s =
     (case find (\<lambda>(kx, ky). collision (board s) rotatedShape (xpos (pos s) + kx) (ypos (pos s) - ky)
                              = Inr False) kicks of
        None \<Rightarrow> Inr s
      | Some (kx, ky) \<Rightarrow>
          Inr (s\<lparr>currentPiece := (currentPiece s)\<lparr>shape := rotatedShape\<rparr>,
                  pos := \<lparr>xpos = xpos (pos s) + kx, ypos = ypos (pos s) - ky, rotation = to\<rparr>\<rparr>))"
proof (induction kicks)
  case Nil
  then show ?case by simp
next
  case (Cons k kicks)
  obtain kx ky where k: "k = (kx, ky)" by (cases k)
  show ?case
    unfolding k using Cons.IH
    by (simp add: collision_wf[OF assms] bindE_def Let_def)
qed

text \<open>
  C3. \<open>rotate(dir)\<close> on a 20 by 10 board, with a rotation index that is not
  negative. It does nothing when the game is over or the piece is O.
  Otherwise the shape is rotated, \<open>to = (from + dir + 4) mod 4\<close>, the kick list
  is \<open>WALL_KICKS[name][from>to]\<close> or \<open>[(0, 0)]\<close> when there is no such entry, and
  the first candidate \<open>(kx, ky)\<close> of the list for which the rotated shape does
  not collide at \<open>(x + kx, y - ky)\<close> is committed: shape, position and rotation
  index change together. When every candidate collides the state is
  unchanged.
\<close>

theorem rotate_spec:
  assumes "wf_board (board s)" and "0 \<le> rotation (pos s)" and "dir = 1 \<or> dir = - 1"
  shows "rotate_piece dir s =
     (if gameOver s \<or> name (currentPiece s) = O_piece then Inr s
      else
        (case rotateMatrix (shape (currentPiece s)) dir of
           Inl e \<Rightarrow> Inl e
         | Inr rotatedShape \<Rightarrow>
             (let from = rotation (pos s);
                  to = (from + dir + 4) mod 4;
                  kicks = (case WALL_KICKS (name (currentPiece s)) (from, to) of
                             Some ks \<Rightarrow> ks | None \<Rightarrow> [(0, 0)])
              in case find (\<lambda>(kx, ky). collision (board s) rotatedShape
                                          (xpos (pos s) + kx) (ypos (pos s) - ky) = Inr False) kicks of
                   None \<Rightarrow> Inr s
                 | Some (kx, ky) \<Rightarrow>
                     Inr (s\<lparr>currentPiece := (currentPiece s)\<lparr>shape := rotatedShape\<rparr>,
                             pos := \<lparr>xpos = xpos (pos s) + kx, ypos = ypos (pos s) - ky,
                                     rotation = to\<rparr>\<rparr>))))"
proof -
  have "0 \<le> rotation (pos s) + dir + 4"
    using assms(2,3) by auto
  then have to: "js_rem (rotation (pos s) + dir + 4) 4 = (rotation (pos s) + dir + 4) mod 4"
    by (rule js_rem_nonneg)
  have m4: "(rotation (pos s) + dir + 4) mod 4 = (rotation (pos s) + dir) mod 4"
    by simp
  show ?thesis
    unfolding rotate_piece_def Let_def to m4
    by (simp add: bindE_def tryKicks_find[OF assms(1)] split: sum.splits)
qed

theorem rotate_spec_witness:
  "wf_board (board (initialGame (\<lambda>k. 0)))
   \<and> 0 \<le> rotation (pos (initialGame (\<lambda>k. 0)))
   \<and> rotate_piece 1 (initialGame (\<lambda>k. 0)) =
       Inr ((initialGame (\<lambda>k. 0))
              \<lparr>currentPiece := \<lparr>shape = [[1], [1], [1], [1]], color = ''#00FFFF'', name = I_piece\<rparr>,
               pos := \<lparr>xpos = 3, ypos = 0, rotation = 1\<rparr>\<rparr>)
   \<and> rotate_piece 1 ((initialGame (\<lambda>k. 0))\<lparr>pos := \<lparr>xpos = 6, ypos = 18, rotation = 0\<rparr>\<rparr>) =
       Inr ((initialGame (\<lambda>k. 0))
              \<lparr>currentPiece := \<lparr>shape = [[1], [1], [1], [1]], color = ''#00FFFF'', name = I_piece\<rparr>,
               pos := \<lparr>xpos = 7, ypos = 16, rotation = 1\<rparr>\<rparr>)
   \<and> rotate_piece 1 ((initialGame (\<lambda>k. 0))\<lparr>pos := \<lparr>xpos = 3, ypos = 19, rotation = 0\<rparr>\<rparr>) =
       Inr ((initialGame (\<lambda>k. 0))\<lparr>pos := \<lparr>xpos = 3, ypos = 19, rotation = 0\<rparr>\<rparr>)"
proof -
  let ?s = "initialGame (\<lambda>k. 0)"
  let ?t = "?s\<lparr>pos := \<lparr>xpos = 6, ypos = 18, rotation = 0\<rparr>\<rparr>"
  let ?u = "?s\<lparr>pos := \<lparr>xpos = 3, ypos = 19, rotation = 0\<rparr>\<rparr>"
  have h1: "wf_board (board ?s)"
    by code_simp
  have h2: "0 \<le> rotation (pos ?s)"
    by code_simp
  have h1t: "wf_board (board ?t)" and h1u: "wf_board (board ?u)"
    using h1 by simp_all
  have h2t: "0 \<le> rotation (pos ?t)" and h2u: "0 \<le> rotation (pos ?u)"
    by simp_all
  have e1: "rotate_piece 1 ?s =
       Inr (?s\<lparr>currentPiece := \<lparr>shape = [[1], [1], [1], [1]], color = ''#00FFFF'', name = I_piece\<rparr>,
              pos := \<lparr>xpos = 3, ypos = 0, rotation = 1\<rparr>\<rparr>)"
    by (subst rotate_spec[OF h1 h2]) (simp, code_simp)
  have e2: "rotate_piece 1 ?t =
       Inr (?s\<lparr>currentPiece := \<lparr>shape = [[1], [1], [1], [1]], color = ''#00FFFF'', name = I_piece\<rparr>,
              pos := \<lparr>xpos = 7, ypos = 16, rotation = 1\<rparr>\<rparr>)"
    by (subst rotate_spec[OF h1t h2t]) (simp, code_simp)
  have e3: "rotate_piece 1 ?u = Inr ?u"
    by (subst rotate_spec[OF h1u h2u]) (simp, code_simp)
  show ?thesis
    using h1 h2 e1 e2 e3 by simp
qed

subsection \<open>Game over\<close>

text \<open>
  \<open>tick\<close> itself does not read \<open>gameOver\<close>: called directly on a state whose game is
  over, it still moves the piece. Only the game loop keeps it from running.
\<close>

lemma tick_ignores_gameOver:
  "tick (\<lambda>k. 0) ((initialGame (\<lambda>k. 0))\<lparr>gameOver := True\<rparr>) =
     Inr ((initialGame (\<lambda>k. 0))\<lparr>gameOver := True, pos := \<lparr>xpos = 3, ypos = 1, rotation = 0\<rparr>\<rparr>)"
  by code_simp

text \<open>
  C2. Once \<open>gameOver\<close> holds, \<open>move\<close>, \<open>rotate\<close>, \<open>hold\<close>, \<open>hardDrop\<close> and the tick
  of the game loop return the state they were given: board, score, current
  piece, position, hold slot and next piece are as before.
\<close>

theorem gameOver_noop:
  assumes "gameOver s"
  shows "move dx s = Inr s \<and> rotate_piece dir s = Inr s \<and> hold rnd s = s
         \<and> hardDrop rnd s = Some (Inr s) \<and> gameLoop rnd s = Inr s"
  using assms by (simp add: move_def rotate_piece_def hold_def hardDrop_def gameLoop_def)

theorem gameOver_noop_witness:
  "gameOver ((initialGame (\<lambda>k. 0))\<lparr>gameOver := True\<rparr>)
   \<and> move 1 ((initialGame (\<lambda>k. 0))\<lparr>gameOver := True\<rparr>) = Inr ((initialGame (\<lambda>k. 0))\<lparr>gameOver := True\<rparr>)
   \<and> rotate_piece 1 ((initialGame (\<lambda>k. 0))\<lparr>gameOver := True\<rparr>)
       = Inr ((initialGame (\<lambda>k. 0))\<lparr>gameOver := True\<rparr>)
   \<and> hold (\<lambda>k. 0) ((initialGame (\<lambda>k. 0))\<lparr>gameOver := True\<rparr>) = (initialGame (\<lambda>k. 0))\<lparr>gameOver := True\<rparr>
   \<and> hardDrop (\<lambda>k. 0) ((initialGame (\<lambda>k. 0))\<lparr>gameOver := True\<rparr>)
       = Some (Inr ((initialGame (\<lambda>k. 0))\<lparr>gameOver := True\<rparr>))
   \<and> gameLoop (\<lambda>k. 0) ((initialGame (\<lambda>k. 0))\<lparr>gameOver := True\<rparr>)
       = Inr ((initialGame (\<lambda>k. 0))\<lparr>gameOver := True\<rparr>)"
proof -
  have h: "gameOver ((initialGame (\<lambda>k. 0))\<lparr>gameOver := True\<rparr>)"
    by simp
  show ?thesis
    using h gameOver_noop[OF h, of 1 1 "\<lambda>k. 0"] by blast
qed

subsection \<open>hardDrop and tick\<close>

lemma clearLines_pos: "clearLines nb (s\<lparr>pos := p\<rparr>) = (clearLines nb s)\<lparr>pos := p\<rparr>"
  by (simp add: clearLines_def Let_def split: prod.splits)

lemma clearLines_frame:
  "currentPiece (clearLines nb s) = currentPiece s"
  "nextPiece (clearLines nb s) = nextPiece s"
  "pos (clearLines nb s) = pos s"
  "gameOver (clearLines nb s) = gameOver s"
  "pieceBag (clearLines nb s) = pieceBag s"
  "randomCalls (clearLines nb s) = randomCalls s"
  by (simp_all add: clearLines_def Let_def split: prod.splits)

lemma tick_fall:
  assumes "wf_board (board s)"
    and "\<not> collides (board s) (shape (currentPiece s)) (xpos (pos s)) (ypos (pos s) + 1)"
  shows "tick rnd s = Inr (s\<lparr>pos := (pos s)\<lparr>ypos := ypos (pos s) + 1\<rparr>\<rparr>)"
  using assms by (simp add: tick_def collision_wf bindE_def)

lemma ticks_fall:
  assumes "wf_board (board s)"
    and "\<forall>y'. ypos (pos s) \<le> y' \<and> y' < ypos (pos s) + int k \<longrightarrow>
           \<not> collides (board s) (shape (currentPiece s)) (xpos (pos s)) (y' + 1)"
  shows "ticks rnd k s = Inr (s\<lparr>pos := (pos s)\<lparr>ypos := ypos (pos s) + int k\<rparr>\<rparr>)"
  using assms
proof (induction k arbitrary: s)
  case 0
  then show ?case by simp
next
  case (Suc k)
  let ?s1 = "s\<lparr>pos := (pos s)\<lparr>ypos := ypos (pos s) + 1\<rparr>\<rparr>"
  have "\<not> collides (board s) (shape (currentPiece s)) (xpos (pos s)) (ypos (pos s) + 1)"
    using Suc.prems(2) by simp
  then have t: "tick rnd s = Inr ?s1"
    using Suc.prems(1) by (rule tick_fall[rotated])
  have "ticks rnd k ?s1 = Inr (?s1\<lparr>pos := (pos ?s1)\<lparr>ypos := ypos (pos ?s1) + int k\<rparr>\<rparr>)"
    using Suc.prems by (intro Suc.IH) auto
  then show ?case
    using t by (simp add: bindE_def add.assoc add.commute)
qed

lemma bindE_assoc: "bindE (bindE r f) g = bindE r (\<lambda>v. bindE (f v) g)"
  by (cases r) (simp_all add: bindE_def)

lemma bindE_Inr: "bindE r Inr = r" "bindE (Inr v) f = f v"
  by (cases r) (simp_all add: bindE_def)

lemma ticks_Suc: "ticks rnd (Suc k) s = bindE (ticks rnd k s) (tick rnd)"
proof (induction k arbitrary: s)
  case 0
  show ?case by (cases "tick rnd s") (simp_all add: bindE_def)
next
  case (Suc k)
  have f: "ticks rnd (Suc k) = (\<lambda>v. bindE (ticks rnd k v) (tick rnd))"
    by (rule ext) (rule Suc.IH)
  have "ticks rnd (Suc (Suc k)) s = bindE (tick rnd s) (ticks rnd (Suc k))"
    by (rule ticks.simps)
  also have "\<dots> = bindE (tick rnd s) (\<lambda>v. bindE (ticks rnd k v) (tick rnd))"
    by (rule arg_cong[OF f])
  also have "\<dots> = bindE (bindE (tick rnd s) (ticks rnd k)) (tick rnd)"
    by (rule bindE_assoc[symmetric])
  also have "\<dots> = bindE (ticks rnd (Suc k) s) (tick rnd)"
    by (simp only: ticks.simps)
  finally show ?case .
qed

text \<open>
  C8. Take a state that is not game over, on a 20 by 10 board, whose current
  piece has a set cell. Then there is a number \<open>k\<close> of ticks that only let the
  piece fall, the tick after them locks it, and \<open>ghostY\<close> is the row reached
  after these \<open>k\<close> ticks. \<open>hardDrop\<close> returns what \<open>k + 1\<close> ticks return, with the
  same draw from the supply: the same board, score, current and next piece,
  game-over flag, and the hold lock reset. It is the locking branch of \<open>tick\<close>
  run on the state with the piece at the row of \<open>ghostY\<close>. The two states differ
  in one field at most: when the lock ends the game, \<open>hardDrop\<close> leaves the
  position where it was and the ticks leave it at the row of the lock.
\<close>

theorem hardDrop_ticks:
  assumes wf: "wf_board (board s)"
    and cell: "\<exists>dy<length (shape (currentPiece s)). \<exists>dx<length (shape (currentPiece s) ! dy).
                 shape (currentPiece s) ! dy ! dx \<noteq> 0"
    and live: "\<not> gameOver s"
  shows "\<exists>k h t.
           (\<forall>i<k. \<exists>si. ticks rnd i s = Inr si \<and> \<not> locks si)
         \<and> (\<exists>sk. ticks rnd k s = Inr sk \<and> locks sk)
         \<and> ticks rnd (Suc k) s = Inr t
         \<and> ghostY s = Some (Inr (ypos (pos s) + int k))
         \<and> tick rnd (s\<lparr>pos := (pos s)\<lparr>ypos := ypos (pos s) + int k\<rparr>\<rparr>) = Inr t
         \<and> hardDrop rnd s = Some (Inr h)
         \<and> h = t\<lparr>pos := pos h\<rparr>
         \<and> board h = board t \<and> score h = score t
         \<and> currentPiece h = currentPiece t \<and> nextPiece h = nextPiece t
         \<and> gameOver h = gameOver t
         \<and> (\<not> gameOver h \<longrightarrow> h = t)
         \<and> \<not> holdUsed h"
proof -
  let ?b = "board s" and ?sh = "shape (currentPiece s)" and ?x = "xpos (pos s)" and ?y = "ypos (pos s)"
  from cell obtain dy dx where c: "dy < length ?sh" "dx < length (?sh ! dy)" "?sh ! dy ! dx \<noteq> 0"
    by blast
  from ghostY_loop_terminates[OF wf c, of ?x ?y] obtain r where
      r: "ghostY_loop ?b ?sh ?x ?y = Some (Inr r)" "?y \<le> r" "collides ?b ?sh ?x (r + 1)"
         "\<forall>y'. ?y \<le> y' \<and> y' < r \<longrightarrow> \<not> collides ?b ?sh ?x (y' + 1)"
    by blast
  define k where "k = nat (r - ?y)"
  have rk: "r = ?y + int k"
    using r(2) by (simp add: k_def)
  define drop where "drop = (\<lambda>i. s\<lparr>pos := (pos s)\<lparr>ypos := ?y + int i\<rparr>\<rparr>)"
  have fall: "ticks rnd i s = Inr (drop i)" if "i \<le> k" for i
    unfolding drop_def using wf r(4) that rk by (intro ticks_fall) auto
  have nolock: "\<not> locks (drop i)" if "i < k" for i
    using r(4) that rk wf by (simp add: locks_def drop_def collision_wf)
  have lock: "locks (drop k)"
    using r(3) rk wf by (simp add: locks_def drop_def collision_wf)
  obtain nb where nb: "mergePiece ?sh ?x r (color (currentPiece s)) ?b = Inr nb"
    using mergePiece_wf[OF wf] by blast
  obtain p bag calls where g: "getNextPiece rnd (pieceBag s, randomCalls s) = (p, (bag, calls))"
    by (metis prod.exhaust)
  define t where "t =
     (if collides ?b (shape (nextPiece s)) 3 0
      then (clearLines nb (drop k))\<lparr>holdUsed := False, gameOver := True\<rparr>
      else (clearLines nb (drop k))\<lparr>holdUsed := False, currentPiece := nextPiece s,
              pos := \<lparr>xpos = 3, ypos = 0, rotation = 0\<rparr>, nextPiece := p,
              pieceBag := bag, randomCalls := calls\<rparr>)"
  define h where "h =
     (if collides ?b (shape (nextPiece s)) 3 0
      then (clearLines nb s)\<lparr>holdUsed := False, gameOver := True\<rparr>
      else (clearLines nb s)\<lparr>holdUsed := False, currentPiece := nextPiece s,
              nextPiece := p, pieceBag := bag, randomCalls := calls,
              pos := \<lparr>xpos = 3, ypos = 0, rotation = 0\<rparr>\<rparr>)"
  have tk: "tick rnd (drop k) = Inr t"
    using lock r(3) rk wf nb g
    by (simp add: tick_def drop_def collision_wf bindE_def t_def Let_def locks_def)
  have hd: "hardDrop rnd s = Some (Inr h)"
    using live r(1) wf nb g
    by (simp add: hardDrop_def ghostY_def collision_wf bindE_def h_def Let_def)
  have "ticks rnd (Suc k) s = bindE (ticks rnd k s) (tick rnd)"
    by (rule ticks_Suc)
  then have ts: "ticks rnd (Suc k) s = Inr t"
    using fall[of k] tk by (simp only: bindE_Inr le_refl)
  have gy: "ghostY s = Some (Inr (?y + int k))"
    using r(1) rk by (simp add: ghostY_def)
  have go: "gameOver (clearLines nb s) = gameOver s"
    by (rule clearLines_frame)
  have eq: "h = t\<lparr>pos := pos h\<rparr>"
    by (simp add: h_def t_def drop_def clearLines_pos clearLines_frame)
  have eq2: "\<not> gameOver h \<Longrightarrow> h = t"
    using live by (simp add: h_def t_def drop_def clearLines_pos go split: if_splits)
  have hu: "\<not> holdUsed h"
    by (simp add: h_def)
  have f1: "\<forall>i<k. \<exists>si. ticks rnd i s = Inr si \<and> \<not> locks si"
    using fall nolock by auto
  have f2: "\<exists>sk. ticks rnd k s = Inr sk \<and> locks sk"
    using fall[of k] lock by auto
  have parts: "board h = board t \<and> score h = score t
         \<and> currentPiece h = currentPiece t \<and> nextPiece h = nextPiece t
         \<and> gameOver h = gameOver t"
    by (subst eq, simp)+
  show ?thesis
    using f1 f2 ts gy tk[unfolded drop_def] hd eq parts eq2 hu by blast
qed

theorem hardDrop_ticks_witness:
  "wf_board (board (initialGame (\<lambda>k. 0)))
   \<and> (\<exists>dy<length (shape (currentPiece (initialGame (\<lambda>k. 0)))).
        \<exists>dx<length (shape (currentPiece (initialGame (\<lambda>k. 0))) ! dy).
          shape (currentPiece (initialGame (\<lambda>k. 0))) ! dy ! dx \<noteq> 0)
   \<and> \<not> gameOver (initialGame (\<lambda>k. 0))
   \<and> (\<exists>k h t. ticks (\<lambda>k. 0) (Suc k) (initialGame (\<lambda>k. 0)) = Inr t
         \<and> ghostY (initialGame (\<lambda>k. 0)) = Some (Inr (ypos (pos (initialGame (\<lambda>k. 0))) + int k))
         \<and> hardDrop (\<lambda>k. 0) (initialGame (\<lambda>k. 0)) = Some (Inr h)
         \<and> board h = board t \<and> score h = score t \<and> currentPiece h = currentPiece t)
   \<and> ghostY (initialGame (\<lambda>k. 0)) = Some (Inr 19)
   \<and> hardDrop (\<lambda>k. 0) (initialGame (\<lambda>k. 0)) = Some (ticks (\<lambda>k. 0) 20 (initialGame (\<lambda>k. 0)))"
proof -
  let ?s = "initialGame (\<lambda>k. 0)"
  have h1: "wf_board (board ?s)"
    by code_simp
  have sh: "shape (currentPiece ?s) = [[1, 1, 1, 1]]"
    by code_simp
  have h2: "\<exists>dy<length (shape (currentPiece ?s)). \<exists>dx<length (shape (currentPiece ?s) ! dy).
              shape (currentPiece ?s) ! dy ! dx \<noteq> 0"
    unfolding sh by (rule exI[of _ 0], simp, rule exI[of _ 0], simp)
  have h3: "\<not> gameOver ?s"
    by code_simp
  have e: "\<exists>k h t. ticks (\<lambda>k. 0) (Suc k) ?s = Inr t
         \<and> ghostY ?s = Some (Inr (ypos (pos ?s) + int k))
         \<and> hardDrop (\<lambda>k. 0) ?s = Some (Inr h)
         \<and> board h = board t \<and> score h = score t \<and> currentPiece h = currentPiece t"
    using hardDrop_ticks[OF h1 h2 h3, of "\<lambda>k. 0"] by blast
  have g: "ghostY ?s = Some (Inr 19)"
    by code_simp
  have d: "hardDrop (\<lambda>k. 0) ?s = Some (ticks (\<lambda>k. 0) 20 ?s)"
    by code_simp
  show ?thesis
    using h1 h2 h3 e g d by blast
qed

subsection \<open>The game-over test after a lock\<close>

text \<open>
  In the locking branch the test \<open>collision(nextPiece.shape, 3, 0)\<close> reads the
  board of the render that created \<open>tick\<close>, the board before the merge:
  \<open>setBoard\<close>, called inside \<open>clearLines\<close>, does not change the \<open>board\<close> that the
  closure of \<open>collision\<close> holds.
\<close>

lemma tick_lock_old_board:
  assumes "wf_board (board s)" and "locks s"
  shows "\<exists>s'. tick rnd s = Inr s' \<and>
           (gameOver s' \<longleftrightarrow> gameOver s \<or> collides (board s) (shape (nextPiece s)) 3 0) \<and>
           (\<not> collides (board s) (shape (nextPiece s)) 3 0 \<longrightarrow>
              currentPiece s' = nextPiece s \<and> pos s' = \<lparr>xpos = 3, ypos = 0, rotation = 0\<rparr> \<and>
              nextPiece s' = fst (getNextPiece rnd (pieceBag s, randomCalls s)))"
proof -
  obtain nb where nb: "mergePiece (shape (currentPiece s)) (xpos (pos s)) (ypos (pos s))
                          (color (currentPiece s)) (board s) = Inr nb"
    using mergePiece_wf[OF assms(1)] by blast
  obtain p bag calls where g: "getNextPiece rnd (pieceBag s, randomCalls s) = (p, (bag, calls))"
    by (metis prod.exhaust)
  have c: "collides (board s) (shape (currentPiece s)) (xpos (pos s)) (ypos (pos s) + 1)"
    using assms by (simp add: locks_def collision_wf)
  show ?thesis
    using c nb g assms(1)
    by (simp add: tick_def collision_wf bindE_def Let_def clearLines_frame)
qed

text \<open>
  C1. The specification asks for game over exactly when the next piece
  collides at the spawn anchor with the board as it is after the lock, the
  merged piece included. The code does otherwise. Start the game with
  the random source that always yields 0 and drop ten pieces without moving
  them. The eleventh piece, a J, rests at the spawn anchor on the stack. Its
  tick locks it into rows 0 and 1; the next piece, an L, collides at the
  spawn anchor with the board after the lock, and yet the game is not over:
  the L becomes the current piece at the anchor, on top of occupied cells.
  \<open>hardDrop\<close> returns the same state.
\<close>

theorem tick_lock_misses_gameOver:
  "(case hardDrops (\<lambda>k. 0) 10 (initialGame (\<lambda>k. 0)) of
      Some (Inr s) \<Rightarrow>
        locks s \<and> \<not> gameOver s \<and> name (currentPiece s) = J_piece \<and> name (nextPiece s) = L_piece
        \<and> collision (board s) (shape (currentPiece s)) (xpos (pos s)) (ypos (pos s)) = Inr False
        \<and> (case tick (\<lambda>k. 0) s of
              Inr s' \<Rightarrow>
                \<not> gameOver s'
              \<and> collision (board s') (shape (nextPiece s)) 3 0 = Inr True
              \<and> currentPiece s' = nextPiece s
              \<and> pos s' = \<lparr>xpos = 3, ypos = 0, rotation = 0\<rparr>
              \<and> take 2 (board s') =
                  [[None, None, None, Some ''#0000FF'', Some ''#0000FF'', Some ''#0000FF'',
                    None, None, None, None],
                   [None, None, None, None, None, Some ''#0000FF'', None, None, None, None]]
            | Inl e \<Rightarrow> False)
        \<and> hardDrop (\<lambda>k. 0) s = Some (tick (\<lambda>k. 0) s)
    | _ \<Rightarrow> False)"
  by code_simp

end
